theory Spec2Isabelle
  imports
    Main
    "HOL-Library.AList"
    "HOL-Library.Sublist"
    "HOL-Library.Char_ord"
    "HOL-Library.List_Lexorder"
begin

section \<open>Python values\<close>

text \<open>
  A Python \<open>str\<close> is a \<open>string\<close>, one \<open>char\<close> per code point (code points below 256).
  A \<open>dict[str, str]\<close> is an association list in insertion order whose keys are distinct
  (\<open>wf_dict\<close>); \<open>d.get(k)\<close> is \<open>dict_get\<close>, \<open>d[k] = v\<close> is \<open>dict_set\<close> (an existing key
  keeps its place, a new key goes last), \<open>{**a, **b}\<close> is \<open>dict_merge\<close> and the
  comprehension \<open>{t['Key']: t['Value'] for t in ts}\<close> is \<open>dict_of_items\<close>.
  Strings are ordered as Python orders them: lexicographically by code point.
\<close>

type_synonym items = "(string \<times> string) list"
type_synonym dict = "(string \<times> string) list"

definition wf_dict :: "dict \<Rightarrow> bool" where
  "wf_dict d = distinct (map fst d)"

definition dict_get :: "dict \<Rightarrow> string \<Rightarrow> string option" where
  "dict_get d k = map_of d k"

definition dict_set :: "string \<Rightarrow> string \<Rightarrow> dict \<Rightarrow> dict" where
  "dict_set k v d = AList.update k v d"

definition dict_merge :: "dict \<Rightarrow> dict \<Rightarrow> dict" where
  "dict_merge a b = fold (\<lambda>(k, v). dict_set k v) b a"

definition dict_of_items :: "items \<Rightarrow> dict" where
  "dict_of_items ts = fold (\<lambda>(k, v). dict_set k v) ts []"

text \<open>\<open>str.isspace\<close> on the code points below 256, \<open>str.strip()\<close> and \<open>str.lower()\<close>.\<close>

definition whitespace :: "char list" where
  "whitespace = [CHR 0x09, CHR 0x0A, CHR 0x0B, CHR 0x0C, CHR 0x0D, CHR 0x1C, CHR 0x1D,
     CHR 0x1E, CHR 0x1F, CHR 0x20, CHR 0x85, CHR 0xA0]"

definition isspace :: "char \<Rightarrow> bool" where
  "isspace c = (c \<in> set whitespace)"

definition strip :: "string \<Rightarrow> string" where
  "strip s = rev (dropWhile isspace (rev (dropWhile isspace s)))"

definition lower_char :: "char \<Rightarrow> char" where
  "lower_char c =
     (let n = (of_char c :: nat)
      in if (65 \<le> n \<and> n \<le> 90) \<or> (192 \<le> n \<and> n \<le> 222 \<and> n \<noteq> 215)
         then char_of (n + 32) else c)"

definition lower :: "string \<Rightarrow> string" where
  "lower s = map lower_char s"

text \<open>
  The exceptions of a boto3 client call: a \<open>ClientError\<close> carrying the service's error code
  (\<open>e.response['Error']['Code']\<close>), or a client-side \<open>BotoCoreError\<close> (no connection, a
  timeout), which is not a \<open>ClientError\<close>.
\<close>

datatype exn = ClientError string | BotoCoreError

section \<open>tag_eventbridge.py\<close>

subsection \<open>show_tag_diff\<close>

text \<open>
  The lines \<open>show_tag_diff\<close> prints for one key: \<open>+ key: new\<close> is \<open>Add\<close>,
  \<open>- key: current\<close> is \<open>Remove\<close>, \<open>~ key: current -> new\<close> is \<open>Change\<close>.
\<close>

datatype delta =
    Add string string
  | Remove string string
  | Change string string string

fun delta_key :: "delta \<Rightarrow> string" where
  "delta_key (Add k v) = k"
| "delta_key (Remove k v) = k"
| "delta_key (Change k old new) = k"

text \<open>Everything the script prints, one constructor per message.\<close>

datatype line =
    Header string
  | NotSupported
  | Delta delta
  | NoChanges
  | TaggingNotSupportedFor string
  | CouldNotGetTags string
  | ErrorListing
  | SuccessfullyTagged string
  | AccessDenied string
  | RuleNotFound string
  | TaggingUnsupported string
  | RateLimitRetrying string
  | ErrorTagging string
  | UnexpectedError string
  | Tagging
  | NoMatch
  | Found nat
  | Taggable nat
  | NotTaggable nat
  | NoTaggableRule
  | Prompt nat
  | AbortedByUser
  | Cancelled
  | Completed nat nat

text \<open>The body of the loop of \<open>show_tag_diff\<close> (lines 68 to 79), for one key.\<close>

definition diff_line :: "dict \<Rightarrow> dict \<Rightarrow> string \<Rightarrow> delta option" where
  "diff_line current_tags new_tags key =
     (case (dict_get current_tags key, dict_get new_tags key) of
        (None, Some new_value) \<Rightarrow> Some (Add key new_value)
      | (Some current_value, None) \<Rightarrow> Some (Remove key current_value)
      | (Some current_value, Some new_value) \<Rightarrow>
          if current_value \<noteq> new_value then Some (Change key current_value new_value)
          else None
      | (None, None) \<Rightarrow> None)"

text \<open>The loop over \<open>sorted(all_keys)\<close> (lines 64 to 79): the change lines, in order.\<close>

definition tag_diff :: "dict \<Rightarrow> dict \<Rightarrow> delta list" where
  "tag_diff current_tags new_tags =
     List.map_filter (diff_line current_tags new_tags)
       (sorted_list_of_set (set (map fst current_tags) \<union> set (map fst new_tags)))"

definition show_tag_diff :: "string \<Rightarrow> dict \<Rightarrow> dict \<Rightarrow> bool \<Rightarrow> line list" where
  "show_tag_diff rule_name current_tags new_tags tagging_supported =
     Header rule_name #
       (if \<not> tagging_supported then [NotSupported]
        else let changes = tag_diff current_tags new_tags
             in if changes = [] then [NoChanges] else map Delta changes)"

text \<open>
  The spec's reading of a delta, for the round trip: Add inserts, Remove deletes,
  Change overwrites.
\<close>

fun spec_apply_entry :: "delta \<Rightarrow> dict \<Rightarrow> dict" where
  "spec_apply_entry (Add k v) d = dict_set k v d"
| "spec_apply_entry (Remove k v) d = AList.delete k d"
| "spec_apply_entry (Change k old new) d = dict_set k new d"

definition spec_apply_delta :: "delta list \<Rightarrow> dict \<Rightarrow> dict" where
  "spec_apply_delta es d = fold spec_apply_entry es d"

subsection \<open>The EventBridge client\<close>

text \<open>
  The remote side of \<open>EventBridgeTagger\<close>: what the paginator of \<open>list_rules\<close> yields page
  by page (\<open>Inl\<close>: fetching that page raises), what \<open>list_tags_for_resource\<close> answers for an
  ARN, and what the n-th call of \<open>tag_resource\<close> answers (\<open>None\<close>: success). The trace
  \<open>ev_calls\<close> records the remote calls and the sleeps in order, \<open>stdout\<close> the printed lines.
\<close>

record rule =
  Name :: string
  Arn :: string

record matched_rule =
  m_name :: string
  m_arn :: string
  m_current_tags :: dict
  m_tagging_supported :: "bool option"

datatype ev_call =
    ListRulesPage
  | ListTagsForResource string
  | TagResource string items
  | SleepJitter
  | SleepSeconds nat

record events =
  pages :: "(exn + rule list) list"
  tags_reply :: "string \<Rightarrow> exn + items"
  tag_resource_reply :: "nat \<Rightarrow> exn option"
  ev_calls :: "ev_call list"
  stdout :: "line list"

fun is_tag_resource :: "ev_call \<Rightarrow> bool" where
  "is_tag_resource (TagResource a ts) = True"
| "is_tag_resource c = False"

definition tag_resource_count :: "events \<Rightarrow> nat" where
  "tag_resource_count w = length (filter is_tag_resource (ev_calls w))"

definition called :: "ev_call \<Rightarrow> events \<Rightarrow> events" where
  "called c w = w\<lparr>ev_calls := ev_calls w @ [c]\<rparr>"

definition print :: "line \<Rightarrow> events \<Rightarrow> events" where
  "print l w = w\<lparr>stdout := stdout w @ [l]\<rparr>"

definition print_lines :: "line list \<Rightarrow> events \<Rightarrow> events" where
  "print_lines ls w = w\<lparr>stdout := stdout w @ ls\<rparr>"

text \<open>\<open>_wait_with_jitter\<close>: sleeps 0.5 s plus a random 0.1 to 0.5 s.\<close>

definition wait_with_jitter :: "events \<Rightarrow> events" where
  "wait_with_jitter w = called SleepJitter w"

definition list_tags_for_resource :: "string \<Rightarrow> events \<Rightarrow> (exn + items) \<times> events" where
  "list_tags_for_resource a w = (tags_reply w a, called (ListTagsForResource a) w)"

definition tag_resource :: "string \<Rightarrow> items \<Rightarrow> events \<Rightarrow> exn option \<times> events" where
  "tag_resource a tag_list w =
     (tag_resource_reply w (tag_resource_count w), called (TagResource a tag_list) w)"

subsection \<open>list_rules_by_pattern\<close>

text \<open>\<open>.get('tagging_supported', True)\<close> on a matched rule.\<close>

definition supported :: "matched_rule \<Rightarrow> bool" where
  "supported r = (case m_tagging_supported r of None \<Rightarrow> True | Some b \<Rightarrow> b)"

definition matches :: "string list \<Rightarrow> string \<Rightarrow> bool" where
  "matches name_patterns nm = list_ex (\<lambda>pattern. sublist pattern nm) name_patterns"

text \<open>
  The inner loop over the rules of one page (lines 26 to 52). A \<open>ClientError\<close> of the tag
  fetch is caught there, whatever its code; any other exception leaves the loop.
\<close>

fun scan_rules ::
  "string list \<Rightarrow> rule list \<Rightarrow> matched_rule list \<Rightarrow> events \<Rightarrow> (exn + matched_rule list) \<times> events"
where
  "scan_rules name_patterns [] matched_rules w = (Inr matched_rules, w)"
| "scan_rules name_patterns (r # rs) matched_rules w =
     (if matches name_patterns (Name r) then
        (case list_tags_for_resource (Arn r) w of
           (Inr tags, w1) \<Rightarrow>
             scan_rules name_patterns rs
               (matched_rules @ [\<lparr>m_name = Name r, m_arn = Arn r,
                   m_current_tags = dict_of_items tags, m_tagging_supported = None\<rparr>])
               (wait_with_jitter w1)
         | (Inl (ClientError code), w1) \<Rightarrow>
             scan_rules name_patterns rs
               (matched_rules @ [\<lparr>m_name = Name r, m_arn = Arn r,
                   m_current_tags = [], m_tagging_supported = Some False\<rparr>])
               (wait_with_jitter
                 (print (if code = ''UnsupportedOperation''
                         then TaggingNotSupportedFor (Name r)
                         else CouldNotGetTags (Name r)) w1))
         | (Inl BotoCoreError, w1) \<Rightarrow> (Inl BotoCoreError, w1))
      else scan_rules name_patterns rs matched_rules w)"

text \<open>The outer loop over the pages (line 25).\<close>

fun walk_pages ::
  "string list \<Rightarrow> (exn + rule list) list \<Rightarrow> matched_rule list \<Rightarrow> events \<Rightarrow>
     (exn + matched_rule list) \<times> events"
where
  "walk_pages name_patterns [] matched_rules w = (Inr matched_rules, w)"
| "walk_pages name_patterns (Inl e # rest) matched_rules w = (Inl e, called ListRulesPage w)"
| "walk_pages name_patterns (Inr rules # rest) matched_rules w =
     (case scan_rules name_patterns rules matched_rules (called ListRulesPage w) of
        (Inl e, w1) \<Rightarrow> (Inl e, w1)
      | (Inr matched_rules1, w1) \<Rightarrow> walk_pages name_patterns rest matched_rules1 w1)"

text \<open>
  The handler of line 54 catches \<open>ClientError\<close> and \<open>BotoCoreError\<close>, prints and returns
  the empty list.
\<close>

definition list_rules_by_pattern :: "string list \<Rightarrow> events \<Rightarrow> matched_rule list \<times> events" where
  "list_rules_by_pattern name_patterns w =
     (case walk_pages name_patterns (pages w) [] w of
        (Inr matched_rules, w1) \<Rightarrow> (matched_rules, w1)
      | (Inl e, w1) \<Rightarrow> ([], print ErrorListing w1))"

subsection \<open>apply_tags\<close>

text \<open>
  \<open>apply_tags\<close> calls itself on the code \<open>ThrottlingExcep\<close> after \<open>time.sleep(2)\<close>, with
  the same arguments; it keeps no count of its attempts. What ends a run of throttled
  attempts is the interpreter's recursion limit: \<open>room\<close> is the number of nested
  invocations of \<open>apply_tags\<close> whose \<open>try\<close> body the call stack still admits (the client
  call is Python code and needs frames of its own, so the stack runs out inside a \<open>try\<close>
  body, never at the recursive call itself). In an invocation with no room
  the \<open>try\<close> body raises \<open>RecursionError\<close> before the remote has answered; the handler
  \<open>except Exception\<close> catches it, prints and returns \<open>False\<close>, and every enclosing
  invocation returns that \<open>False\<close>. Every other \<open>ClientError\<close> and every other exception
  gives \<open>False\<close>. The trace records the calls of \<open>tag_resource\<close> that the remote answered.
\<close>

fun apply_tags ::
  "nat \<Rightarrow> string \<Rightarrow> string \<Rightarrow> dict \<Rightarrow> events \<Rightarrow> bool \<times> events"
where
  "apply_tags 0 rule_arn rule_name tags w = (False, print (UnexpectedError rule_name) w)"
| "apply_tags (Suc room) rule_arn rule_name tags w =
     (case tag_resource rule_arn tags w of
        (None, w1) \<Rightarrow> (True, wait_with_jitter (print (SuccessfullyTagged rule_name) w1))
      | (Some (ClientError error_code), w1) \<Rightarrow>
          if error_code = ''AccessDeniedException'' then (False, print (AccessDenied rule_name) w1)
          else if error_code = ''ResourceNotFound'' then (False, print (RuleNotFound rule_name) w1)
          else if error_code = ''unsupported '' then (False, print (TaggingUnsupported rule_name) w1)
          else if error_code = ''ThrottlingExcep'' then
            apply_tags room rule_arn rule_name tags
              (called (SleepSeconds 2) (print (RateLimitRetrying rule_name) w1))
          else (False, print (ErrorTagging rule_name) w1)
      | (Some BotoCoreError, w1) \<Rightarrow> (False, print (UnexpectedError rule_name) w1))"

declare apply_tags.simps [simp del]

subsection \<open>tag_rules\<close>

datatype py_error = TypeError | NameError

datatype outcome = Returned | Raised py_error

text \<open>
  Line 143 calls \<open>self.apply_tags(taggable_rules, tags)\<close>: two arguments where the method
  takes three, so the call raises \<open>TypeError\<close> before the body of \<open>apply_tags\<close> runs.
\<close>

definition apply_tags_two_arguments :: "py_error + bool" where
  "apply_tags_two_arguments = Inl TypeError"

text \<open>
  Line 149 reads the name \<open>response\<close>. Its only assignment is the commented line 147, and
  neither the module nor the builtins bind it: the read raises \<open>NameError\<close>.
\<close>

definition read_response :: "py_error + string" where
  "read_response = Inl NameError"

text \<open>
  The loop of lines 153 to 159, counting the rules tagged; every call of \<open>apply_tags\<close>
  starts with the same room on the stack.
\<close>

fun apply_rules ::
  "nat \<Rightarrow> matched_rule list \<Rightarrow> dict \<Rightarrow> nat \<Rightarrow> events \<Rightarrow> nat \<times> events"
where
  "apply_rules room [] tags success_count w = (success_count, w)"
| "apply_rules room (r # rs) tags success_count w =
     (case apply_tags room (m_arn r) (m_name r) (dict_merge (m_current_tags r) tags) w of
        (ok, w1) \<Rightarrow>
          apply_rules room rs tags (if ok then success_count + 1 else success_count) w1)"

text \<open>
  \<open>ci\<close> is \<open>os.getenv("CI")\<close> and \<open>answer\<close> what the user types at the prompt of line 142
  (read only when \<open>is_ci\<close> is false).
\<close>

definition tag_rules ::
  "nat \<Rightarrow> string list \<Rightarrow> dict \<Rightarrow> string option \<Rightarrow> string \<Rightarrow> events \<Rightarrow> outcome \<times> events"
where
  "tag_rules room name_patterns tags ci answer w =
     (case list_rules_by_pattern name_patterns (print Tagging w) of
        (rules, w1) \<Rightarrow>
          if rules = [] then (Returned, print NoMatch w1)
          else
            let taggable_rules = filter supported rules;
                w2 = print (NotTaggable (length rules - length taggable_rules))
                       (print (Taggable (length taggable_rules))
                         (print (Found (length rules)) w1));
                w3 = fold (\<lambda>r. print_lines
                             (show_tag_diff (m_name r) (m_current_tags r)
                                (dict_merge (m_current_tags r) tags) (supported r)))
                       rules w2
            in if taggable_rules = [] then (Returned, print NoTaggableRule w3)
               else
                 let is_ci = (ci = Some ''true'');
                     w4 = (if is_ci then w3 else print (Prompt (length taggable_rules)) w3)
                 in (case (if is_ci \<or> lower (strip answer) = ''yes''
                           then apply_tags_two_arguments else Inr False) of
                      Inl e \<Rightarrow> (Raised e, w4)
                    | Inr u \<Rightarrow>
                       (let w5 = (if is_ci \<or> lower (strip answer) = ''yes'' then w4
                                  else print AbortedByUser w4)
                        in case read_response of
                             Inl e \<Rightarrow> (Raised e, w5)
                           | Inr response \<Rightarrow>
                               if response \<noteq> ''yes'' then (Returned, print Cancelled w5)
                               else (case apply_rules room taggable_rules tags 0 w5 of
                                       (success_count, w6) \<Rightarrow>
                                         (Returned,
                                           print (Completed success_count (length taggable_rules)) w6)))))"

section \<open>tag_s3_new.py\<close>

subsection \<open>The S3 client\<close>

text \<open>
  The remote side of \<open>S3BucketTagger\<close>: the answer of \<open>list_buckets\<close> (the bucket names),
  the tag set stored for each bucket (\<open>None\<close>: the bucket has no tag set, and
  \<open>get_bucket_tagging\<close> raises \<open>NoSuchTagSet\<close>), and for each call and bucket the
  exception the call raises there, if any. \<open>s3_calls\<close> records the remote calls in order,
  \<open>backup_files\<close> the backup files written (by file name; \<open>backup_fault\<close>: writing the
  file fails), \<open>summaries\<close> the counts \<open>successful/total\<close> of the lines
  \<open>Activity Completed\<close> of the log.
\<close>

datatype s3_call =
    ListBuckets
  | GetBucketTagging string
  | PutBucketTagging string items
  | DeleteBucketTagging string

record s3 =
  list_buckets_reply :: "exn + string list"
  tag_sets :: "string \<Rightarrow> items option"
  get_fault :: "string \<Rightarrow> exn option"
  put_fault :: "string \<Rightarrow> exn option"
  delete_fault :: "string \<Rightarrow> exn option"
  backup_fault :: "string \<Rightarrow> bool"
  backup_files :: "string \<Rightarrow> dict option"
  s3_calls :: "s3_call list"
  summaries :: "(nat \<times> nat) list"

fun mutating :: "s3_call \<Rightarrow> bool" where
  "mutating (PutBucketTagging b ts) = True"
| "mutating (DeleteBucketTagging b) = True"
| "mutating c = False"

fun call_bucket :: "s3_call \<Rightarrow> string option" where
  "call_bucket ListBuckets = None"
| "call_bucket (GetBucketTagging b) = Some b"
| "call_bucket (PutBucketTagging b ts) = Some b"
| "call_bucket (DeleteBucketTagging b) = Some b"

definition s3_called :: "s3_call \<Rightarrow> s3 \<Rightarrow> s3" where
  "s3_called c w = w\<lparr>s3_calls := s3_calls w @ [c]\<rparr>"

definition get_bucket_tagging :: "string \<Rightarrow> s3 \<Rightarrow> (exn + items) \<times> s3" where
  "get_bucket_tagging b w =
     (case get_fault w b of
        Some e \<Rightarrow> (Inl e, s3_called (GetBucketTagging b) w)
      | None \<Rightarrow>
         (case tag_sets w b of
            None \<Rightarrow> (Inl (ClientError ''NoSuchTagSet''), s3_called (GetBucketTagging b) w)
          | Some ts \<Rightarrow> (Inr ts, s3_called (GetBucketTagging b) w)))"

definition put_bucket_tagging :: "string \<Rightarrow> items \<Rightarrow> s3 \<Rightarrow> exn option \<times> s3" where
  "put_bucket_tagging b tag_set w =
     (case put_fault w b of
        Some e \<Rightarrow> (Some e, s3_called (PutBucketTagging b tag_set) w)
      | None \<Rightarrow>
          (None, s3_called (PutBucketTagging b tag_set) (w\<lparr>tag_sets := (tag_sets w)(b \<mapsto> tag_set)\<rparr>)))"

definition delete_bucket_tagging :: "string \<Rightarrow> s3 \<Rightarrow> exn option \<times> s3" where
  "delete_bucket_tagging b w =
     (case delete_fault w b of
        Some e \<Rightarrow> (Some e, s3_called (DeleteBucketTagging b) w)
      | None \<Rightarrow>
          (None, s3_called (DeleteBucketTagging b) (w\<lparr>tag_sets := (tag_sets w)(b := None)\<rparr>)))"

subsection \<open>The methods of S3BucketTagger\<close>

text \<open>\<open>list_buckets\<close> logs a \<open>ClientError\<close> and raises it again.\<close>

definition list_buckets :: "s3 \<Rightarrow> (exn + string list) \<times> s3" where
  "list_buckets w = (list_buckets_reply w, s3_called ListBuckets w)"

definition get_bucket_tags :: "string \<Rightarrow> s3 \<Rightarrow> (exn + dict) \<times> s3" where
  "get_bucket_tags bucket_name w =
     (case get_bucket_tagging bucket_name w of
        (Inr tag_set, w1) \<Rightarrow> (Inr (dict_of_items tag_set), w1)
      | (Inl (ClientError code), w1) \<Rightarrow>
          if code = ''NoSuchTagSet'' then (Inr [], w1) else (Inl (ClientError code), w1)
      | (Inl BotoCoreError, w1) \<Rightarrow> (Inl BotoCoreError, w1))"

text \<open>\<open>backup_tags\<close> catches every exception of the file write.\<close>

definition backup_tags :: "string \<Rightarrow> dict \<Rightarrow> s3 \<Rightarrow> s3" where
  "backup_tags bucket_name tags w =
     (let filename = bucket_name @ ''_tags_backup.json''
      in if backup_fault w filename then w
         else w\<lparr>backup_files := (backup_files w)(filename \<mapsto> tags)\<rparr>)"

text \<open>Line 68: the tags whose value is not empty after \<open>strip()\<close>.\<close>

definition filtered_tags :: "dict \<Rightarrow> dict" where
  "filtered_tags tags = filter (\<lambda>(k, v). strip v \<noteq> []) tags"

text \<open>Lines 76 to 83.\<close>

definition final_tags :: "dict \<Rightarrow> dict \<Rightarrow> bool \<Rightarrow> dict" where
  "final_tags existing_tags tags merge_existing =
     (if merge_existing then dict_merge existing_tags (filtered_tags tags)
      else filtered_tags tags)"

text \<open>
  The handler \<open>except ClientError\<close> of \<open>apply_tags_to_bucket\<close> and of
  \<open>remove_tags_from_bucket\<close>: \<open>False\<close> for a \<open>ClientError\<close>; any other exception goes on
  to the caller.
\<close>

definition except_ClientError :: "exn \<Rightarrow> s3 \<Rightarrow> (exn + bool) \<times> s3" where
  "except_ClientError e w =
     (case e of ClientError code \<Rightarrow> (Inr False, w) | BotoCoreError \<Rightarrow> (Inl BotoCoreError, w))"

definition apply_tags_to_bucket ::
  "string \<Rightarrow> dict \<Rightarrow> bool \<Rightarrow> bool \<Rightarrow> s3 \<Rightarrow> (exn + bool) \<times> s3"
where
  "apply_tags_to_bucket bucket_name tags merge_existing dry_run w =
     (case get_bucket_tags bucket_name w of
        (Inl e, w1) \<Rightarrow> except_ClientError e w1
      | (Inr existing_tags, w1) \<Rightarrow>
          let w2 = backup_tags bucket_name existing_tags w1;
              tag_set = final_tags existing_tags tags merge_existing
          in if dry_run then (Inr True, w2)
             else (case put_bucket_tagging bucket_name tag_set w2 of
                     (Some e, w3) \<Rightarrow> except_ClientError e w3
                   | (None, w3) \<Rightarrow> (Inr True, w3)))"

text \<open>\<open>not bucket_filter or bucket_filter in bucket["Name"]\<close>.\<close>

definition passes_filter :: "string option \<Rightarrow> string \<Rightarrow> bool" where
  "passes_filter bucket_filter nm =
     (case bucket_filter of None \<Rightarrow> True | Some f \<Rightarrow> f = [] \<or> sublist f nm)"

text \<open>The loop of lines 126 to 131; \<open>results\<close> is a dict from bucket name to outcome.\<close>

fun tag_buckets ::
  "string list \<Rightarrow> dict \<Rightarrow> bool \<Rightarrow> bool \<Rightarrow> (string \<times> bool) list \<Rightarrow> s3 \<Rightarrow>
     (exn + (string \<times> bool) list) \<times> s3"
where
  "tag_buckets [] tags merge_existing dry_run results w = (Inr results, w)"
| "tag_buckets (bucket_name # rest) tags merge_existing dry_run results w =
     (case apply_tags_to_bucket bucket_name tags merge_existing dry_run w of
        (Inl e, w1) \<Rightarrow> (Inl e, w1)
      | (Inr success, w1) \<Rightarrow>
          tag_buckets rest tags merge_existing dry_run (AList.update bucket_name success results) w1)"

text \<open>\<open>sum(results.values())\<close> and \<open>len(results)\<close>.\<close>

definition successful :: "(string \<times> bool) list \<Rightarrow> nat" where
  "successful results = sum_list (map (\<lambda>(k, v). if v then 1 else 0) results)"

definition tag_all_bucket ::
  "dict \<Rightarrow> bool \<Rightarrow> bool \<Rightarrow> string option \<Rightarrow> s3 \<Rightarrow> (exn + (string \<times> bool) list) \<times> s3"
where
  "tag_all_bucket tags merge_existing dry_run bucket_filter w =
     (case list_buckets w of
        (Inl e, w1) \<Rightarrow> (Inl e, w1)
      | (Inr buckets, w1) \<Rightarrow>
          let filtered_buckets = filter (passes_filter bucket_filter) buckets
          in (case tag_buckets filtered_buckets tags merge_existing dry_run [] w1 of
                (Inl e, w2) \<Rightarrow> (Inl e, w2)
              | (Inr results, w2) \<Rightarrow>
                  (Inr results,
                   w2\<lparr>summaries := summaries w2 @ [(successful results, length results)]\<rparr>)))"

definition remove_tags_from_bucket ::
  "string \<Rightarrow> string list \<Rightarrow> bool \<Rightarrow> s3 \<Rightarrow> (exn + bool) \<times> s3"
where
  "remove_tags_from_bucket bucket_name tag_keys dry_run w =
     (case get_bucket_tags bucket_name w of
        (Inl e, w1) \<Rightarrow> except_ClientError e w1
      | (Inr existing_tags, w1) \<Rightarrow>
          if existing_tags = [] then (Inr True, w1)
          else
            let remaining_tags = filter (\<lambda>(k, v). k \<notin> set tag_keys) existing_tags
            in if dry_run then (Inr True, w1)
               else if remaining_tags \<noteq> [] then
                 (case put_bucket_tagging bucket_name remaining_tags w1 of
                    (Some e, w2) \<Rightarrow> except_ClientError e w2
                  | (None, w2) \<Rightarrow> (Inr True, w2))
               else
                 (case delete_bucket_tagging bucket_name w1 of
                    (Some e, w2) \<Rightarrow> except_ClientError e w2
                  | (None, w2) \<Rightarrow> (Inr True, w2)))"

section \<open>tag_s3.py\<close>

definition REQUIRED_TAGS :: dict where
  "REQUIRED_TAGS =
     [(''project'', ''prod''), (''costcenter'', ''engineering''), (''owner'', ''abc@gmail.com'')]"

definition get_existing_tags :: "string \<Rightarrow> s3 \<Rightarrow> (exn + dict) \<times> s3" where
  "get_existing_tags bucket_name w =
     (case get_bucket_tagging bucket_name w of
        (Inr tag_set, w1) \<Rightarrow> (Inr (dict_of_items tag_set), w1)
      | (Inl (ClientError code), w1) \<Rightarrow>
          if code = ''NoSuchTagSet'' then (Inr [], w1) else (Inl (ClientError code), w1)
      | (Inl BotoCoreError, w1) \<Rightarrow> (Inl BotoCoreError, w1))"

text \<open>\<open>apply_tags\<close> of tag_s3.py: no handler, every exception goes on to \<open>main\<close>.\<close>

definition s3_apply_tags :: "string \<Rightarrow> s3 \<Rightarrow> exn option \<times> s3" where
  "s3_apply_tags bucket_name w =
     (case get_existing_tags bucket_name w of
        (Inl e, w1) \<Rightarrow> (Some e, w1)
      | (Inr existing_tags, w1) \<Rightarrow>
          put_bucket_tagging bucket_name (dict_merge existing_tags REQUIRED_TAGS) w1)"

text \<open>
  The loop of \<open>main\<close> (lines 49 to 54): \<open>except Exception\<close> logs the bucket and goes on.
  The result lists the buckets logged as errors.
\<close>

fun s3_main_loop :: "string list \<Rightarrow> string list \<Rightarrow> s3 \<Rightarrow> string list \<times> s3" where
  "s3_main_loop [] errors w = (errors, w)"
| "s3_main_loop (bucket_name # rest) errors w =
     (case s3_apply_tags bucket_name w of
        (Some e, w1) \<Rightarrow> s3_main_loop rest (errors @ [bucket_name]) w1
      | (None, w1) \<Rightarrow> s3_main_loop rest errors w1)"

definition s3_main :: "s3 \<Rightarrow> (exn + string list) \<times> s3" where
  "s3_main w =
     (case list_buckets_reply w of
        Inl e \<Rightarrow> (Inl e, s3_called ListBuckets w)
      | Inr buckets \<Rightarrow>
          (case s3_main_loop buckets [] (s3_called ListBuckets w) of
             (errors, w1) \<Rightarrow> (Inr errors, w1)))"

section \<open>Vocabulary of the theorems\<close>

text \<open>
  \<open>bucket_ok\<close>: neither the tag fetch of the bucket fails (\<open>NoSuchTagSet\<close> is no failure)
  nor, outside a dry run, its put. \<open>no_boto_fault\<close>: no call on the bucket raises an
  exception that is not a \<open>ClientError\<close>.
\<close>

abbreviation bucket_ok :: "s3 \<Rightarrow> bool \<Rightarrow> string \<Rightarrow> bool" where
  "bucket_ok w d b \<equiv>
     (get_fault w b = None \<or> get_fault w b = Some (ClientError ''NoSuchTagSet''))
     \<and> (d \<or> put_fault w b = None)"

abbreviation no_boto_fault :: "s3 \<Rightarrow> string \<Rightarrow> bool" where
  "no_boto_fault w b \<equiv>
     get_fault w b \<noteq> Some BotoCoreError \<and> put_fault w b \<noteq> Some BotoCoreError"

text \<open>
  \<open>throttled\<close>: the answer of \<open>tag_resource\<close> on which \<open>apply_tags\<close> retries.
  \<open>fetched w r\<close>: the entry \<open>list_rules_by_pattern\<close> records for a matching rule \<open>r\<close>,
  from the answer of \<open>list_tags_for_resource\<close> for its ARN.
\<close>

abbreviation throttled :: "exn option" where
  "throttled \<equiv> Some (ClientError ''ThrottlingExcep'')"

abbreviation fetched :: "events \<Rightarrow> rule \<Rightarrow> matched_rule" where
  "fetched w r \<equiv>
     (case tags_reply w (Arn r) of
        Inr tags \<Rightarrow> \<lparr>m_name = Name r, m_arn = Arn r, m_current_tags = dict_of_items tags,
                     m_tagging_supported = None\<rparr>
      | Inl e \<Rightarrow> \<lparr>m_name = Name r, m_arn = Arn r, m_current_tags = [],
                  m_tagging_supported = Some False\<rparr>)"

section \<open>Clients for the examples\<close>

text \<open>
  A fresh S3 client (no call made, no backup written, the listing answers \<open>buckets\<close>) and a
  fresh EventBridge client (no call made, nothing printed).
\<close>

definition s3_client ::
  "string list \<Rightarrow> (string \<Rightarrow> items option) \<Rightarrow> (string \<Rightarrow> exn option) \<Rightarrow> (string \<Rightarrow> exn option) \<Rightarrow> s3"
where
  "s3_client buckets store gets puts =
     \<lparr>list_buckets_reply = Inr buckets, tag_sets = store, get_fault = gets, put_fault = puts,
      delete_fault = (\<lambda>b. None), backup_fault = (\<lambda>f. False), backup_files = (\<lambda>f. None),
      s3_calls = [], summaries = []\<rparr>"

definition events_client ::
  "(exn + rule list) list \<Rightarrow> (string \<Rightarrow> exn + items) \<Rightarrow> (nat \<Rightarrow> exn option) \<Rightarrow> events"
where
  "events_client ps tag_replies tag_resource_replies =
     \<lparr>pages = ps, tags_reply = tag_replies, tag_resource_reply = tag_resource_replies,
      ev_calls = [], stdout = []\<rparr>"

section \<open>Dictionaries\<close>

lemma dict_get_set: "dict_get (dict_set k v d) = (dict_get d)(k \<mapsto> v)"
  by (rule ext) (simp add: dict_get_def dict_set_def update_conv')

lemma dict_get_delete: "dict_get (AList.delete k d) = (dict_get d)(k := None)"
  by (rule ext) (simp add: dict_get_def delete_conv')

lemma dict_get_Some_key: "dict_get d k = Some v \<Longrightarrow> k \<in> set (map fst d)"
  unfolding dict_get_def by (metis map_of_eq_None_iff option.distinct(1) set_map)

lemma dict_get_None_key: "k \<notin> set (map fst d) \<Longrightarrow> dict_get d k = None"
  unfolding dict_get_def by (simp add: map_of_eq_None_iff)

lemma map_filter_Cons:
  "List.map_filter f (x # xs) =
     (case f x of None \<Rightarrow> List.map_filter f xs | Some y \<Rightarrow> y # List.map_filter f xs)"
  by (simp add: List.map_filter_def split: option.splits)

lemma set_map_filter: "set (List.map_filter f xs) = {y. \<exists>x \<in> set xs. f x = Some y}"
  by (induction xs) (auto simp: map_filter_Cons List.map_filter_def split: option.splits)

section \<open>The tag diff\<close>

lemma diff_line_key: "diff_line c d x = Some e \<Longrightarrow> delta_key e = x"
  by (auto simp: diff_line_def split: option.splits if_splits)

lemma diff_line_None: "diff_line c d x = None \<longleftrightarrow> dict_get c x = dict_get d x"
  by (auto simp: diff_line_def split: option.splits)

lemma diff_line_Add:
  "diff_line c d x = Some (Add k v) \<longleftrightarrow> x = k \<and> dict_get c k = None \<and> dict_get d k = Some v"
  by (cases "dict_get c x"; cases "dict_get d x") (auto simp: diff_line_def)

lemma diff_line_Remove:
  "diff_line c d x = Some (Remove k v) \<longleftrightarrow>
     x = k \<and> dict_get c k = Some v \<and> dict_get d k = None"
  by (cases "dict_get c x"; cases "dict_get d x") (auto simp: diff_line_def)

lemma diff_line_Change:
  "diff_line c d x = Some (Change k v v') \<longleftrightarrow>
     x = k \<and> dict_get c k = Some v \<and> dict_get d k = Some v' \<and> v \<noteq> v'"
  by (cases "dict_get c x"; cases "dict_get d x") (auto simp: diff_line_def)

lemma keys_map_filter:
  "map delta_key (List.map_filter (diff_line c d) ks) =
     filter (\<lambda>k. dict_get c k \<noteq> dict_get d k) ks"
proof (induction ks)
  case Nil
  show ?case by (simp add: List.map_filter_def)
next
  case (Cons x ks)
  show ?case
  proof (cases "diff_line c d x")
    case None
    moreover from None have "dict_get c x = dict_get d x" by (simp add: diff_line_None)
    ultimately show ?thesis using Cons by (simp add: map_filter_Cons)
  next
    case (Some e)
    then have "dict_get c x \<noteq> dict_get d x" using diff_line_None[of c d x] by simp
    then show ?thesis using Cons Some by (simp add: map_filter_Cons diff_line_key)
  qed
qed

lemma set_tag_diff: "set (tag_diff c d) = {e. \<exists>x. diff_line c d x = Some e}"
proof -
  have "diff_line c d x = Some e \<Longrightarrow> x \<in> set (map fst c) \<union> set (map fst d)" for x e
    by (auto simp: diff_line_def split: option.splits dest: dict_get_Some_key)
  then show ?thesis
    unfolding tag_diff_def set_map_filter by (simp del: set_map) blast
qed

lemma tag_diff_keys:
  "map delta_key (tag_diff c d) =
     filter (\<lambda>k. dict_get c k \<noteq> dict_get d k)
       (sorted_list_of_set (set (map fst c) \<union> set (map fst d)))"
  unfolding tag_diff_def by (rule keys_map_filter)

lemma tag_diff_key_set: "set (map delta_key (tag_diff c d)) = {k. dict_get c k \<noteq> dict_get d k}"
proof -
  have "dict_get c k \<noteq> dict_get d k \<Longrightarrow> k \<in> set (map fst c) \<union> set (map fst d)" for k
    using dict_get_None_key[of k c] dict_get_None_key[of k d]
    by (cases "k \<in> set (map fst c)") auto
  then show ?thesis unfolding tag_diff_keys by (simp del: set_map) blast
qed

lemma tag_diff_sorted: "sorted_wrt (<) (map delta_key (tag_diff c d))"
  unfolding tag_diff_keys by (rule sorted_wrt_filter) (rule strict_sorted_list_of_set)

lemma dict_get_apply_entry:
  "diff_line c d x = Some e \<Longrightarrow>
     dict_get (spec_apply_entry e m) = (dict_get m)(x := dict_get d x)"
  by (cases "dict_get c x"; cases "dict_get d x")
     (auto simp: diff_line_def dict_get_set dict_get_delete split: if_splits)

lemma apply_map_filter:
  "\<forall>k. dict_get m k = dict_get c k \<or> dict_get m k = dict_get d k \<Longrightarrow>
   dict_get (fold spec_apply_entry (List.map_filter (diff_line c d) ks) m) k =
     (if k \<in> set ks then dict_get d k else dict_get m k)"
proof (induction ks arbitrary: m)
  case Nil
  show ?case by (simp add: List.map_filter_def)
next
  case (Cons x ks)
  show ?case
  proof (cases "diff_line c d x")
    case None
    then have eq: "dict_get c x = dict_get d x" by (simp add: diff_line_None)
    have "dict_get m x = dict_get d x" using Cons.prems eq by metis
    then show ?thesis using None Cons.IH[OF Cons.prems] by (simp add: map_filter_Cons)
  next
    case (Some e)
    let ?m = "spec_apply_entry e m"
    have upd: "dict_get ?m = (dict_get m)(x := dict_get d x)"
      by (rule dict_get_apply_entry[OF Some])
    have "\<forall>k. dict_get ?m k = dict_get c k \<or> dict_get ?m k = dict_get d k"
      using Cons.prems by (simp add: upd)
    from Cons.IH[OF this] show ?thesis using Some by (simp add: map_filter_Cons upd)
  qed
qed

lemma tag_diff_round_trip: "dict_get (spec_apply_delta (tag_diff c d) c) = dict_get d"
proof (rule ext)
  fix k
  have "dict_get (spec_apply_delta (tag_diff c d) c) k =
      (if k \<in> set (map fst c) \<union> set (map fst d) then dict_get d k else dict_get c k)"
    unfolding spec_apply_delta_def tag_diff_def
    by (subst apply_map_filter) simp_all
  then show "dict_get (spec_apply_delta (tag_diff c d) c) k = dict_get d k"
    using dict_get_None_key[of k c] dict_get_None_key[of k d] by auto
qed

lemma tag_diff_same: "tag_diff t t = []"
proof -
  have "map delta_key (tag_diff t t) = []" unfolding tag_diff_keys by simp
  then show ?thesis by simp
qed

text \<open>
  C1. For all tag maps \<open>current\<close> and \<open>desired\<close>, the change lines of \<open>show_tag_diff\<close> name
  exactly the keys at which the two maps differ, in strictly ascending key order: a key
  only in \<open>desired\<close> gives \<open>Add\<close> with the new value, a key only in \<open>current\<close> gives
  \<open>Remove\<close> with the old value, a key in both with different values gives \<open>Change\<close>, and
  a key with equal values gives no line. Applying the lines to \<open>current\<close> (Add inserts,
  Remove deletes, Change overwrites) gives a dict that maps as \<open>desired\<close> does, and the
  diff of a tag map with itself is empty. \<open>show_tag_diff\<close> prints these lines after the
  header, or \<open>No changes required\<close> when there is none.
\<close>

theorem tag_diff_correct:
  "set (map delta_key (tag_diff current desired)) =
     {k. dict_get current k \<noteq> dict_get desired k}
   \<and> sorted_wrt (<) (map delta_key (tag_diff current desired))
   \<and> (Add k v \<in> set (tag_diff current desired)) =
       (dict_get current k = None \<and> dict_get desired k = Some v)
   \<and> (Remove k v \<in> set (tag_diff current desired)) =
       (dict_get current k = Some v \<and> dict_get desired k = None)
   \<and> (Change k v v' \<in> set (tag_diff current desired)) =
       (dict_get current k = Some v \<and> dict_get desired k = Some v' \<and> v \<noteq> v')
   \<and> dict_get (spec_apply_delta (tag_diff current desired) current) = dict_get desired
   \<and> tag_diff current current = []
   \<and> show_tag_diff nm current desired True =
       Header nm # (if tag_diff current desired = [] then [NoChanges]
                    else map Delta (tag_diff current desired))"
proof -
  have "(Add k v \<in> set (tag_diff current desired)) =
       (dict_get current k = None \<and> dict_get desired k = Some v)"
    unfolding set_tag_diff by (simp add: diff_line_Add)
  moreover have "(Remove k v \<in> set (tag_diff current desired)) =
       (dict_get current k = Some v \<and> dict_get desired k = None)"
    unfolding set_tag_diff by (simp add: diff_line_Remove)
  moreover have "(Change k v v' \<in> set (tag_diff current desired)) =
       (dict_get current k = Some v \<and> dict_get desired k = Some v' \<and> v \<noteq> v')"
    unfolding set_tag_diff by (simp add: diff_line_Change)
  moreover have "show_tag_diff nm current desired True =
       Header nm # (if tag_diff current desired = [] then [NoChanges]
                    else map Delta (tag_diff current desired))"
    by (simp add: show_tag_diff_def Let_def)
  ultimately show ?thesis
    using tag_diff_key_set[of current desired] tag_diff_sorted[of current desired]
      tag_diff_round_trip[of current desired] tag_diff_same[of current]
    by blast
qed

theorem tag_diff_correct_witness:
  "tag_diff [(''b'', ''2''), (''a'', ''1''), (''z'', ''9'')]
     [(''b'', ''3''), (''c'', ''4''), (''B'', ''4''), (''z'', ''9'')] =
     [Add ''B'' ''4'', Remove ''a'' ''1'', Change ''b'' ''2'' ''3'', Add ''c'' ''4'']
   \<and> dict_get (spec_apply_delta
        (tag_diff [(''b'', ''2''), (''a'', ''1''), (''z'', ''9'')]
           [(''b'', ''3''), (''c'', ''4''), (''B'', ''4''), (''z'', ''9'')])
        [(''b'', ''2''), (''a'', ''1''), (''z'', ''9'')]) =
     dict_get [(''b'', ''3''), (''c'', ''4''), (''B'', ''4''), (''z'', ''9'')]
   \<and> show_tag_diff ''r'' [(''b'', ''2''), (''a'', ''1''), (''z'', ''9'')]
        [(''b'', ''3''), (''c'', ''4''), (''B'', ''4''), (''z'', ''9'')] True =
     [Header ''r'', Delta (Add ''B'' ''4''), Delta (Remove ''a'' ''1''),
      Delta (Change ''b'' ''2'' ''3''), Delta (Add ''c'' ''4'')]"
proof -
  have d: "tag_diff [(''b'', ''2''), (''a'', ''1''), (''z'', ''9'')]
     [(''b'', ''3''), (''c'', ''4''), (''B'', ''4''), (''z'', ''9'')] =
     [Add ''B'' ''4'', Remove ''a'' ''1'', Change ''b'' ''2'' ''3'', Add ''c'' ''4'']"
    by code_simp
  show ?thesis
    using tag_diff_correct[of "[(''b'', ''2''), (''a'', ''1''), (''z'', ''9'')]"
        "[(''b'', ''3''), (''c'', ''4''), (''B'', ''4''), (''z'', ''9'')]" "''c''" "''4''" "''0''"
        "''r''"]
    by (simp add: d)
qed

section \<open>The S3 tagger\<close>


lemma dict_get_merge:
  "wf_dict b \<Longrightarrow> dict_get (dict_merge a b) = dict_get a ++ dict_get b"
proof (induction b arbitrary: a)
  case Nil
  show ?case by (rule ext) (simp add: dict_merge_def dict_get_def)
next
  case (Cons p b)
  obtain x y where p: "p = (x, y)" by (cases p)
  from Cons.prems have wf: "wf_dict b" and notin: "x \<notin> set (map fst b)"
    by (simp_all add: wf_dict_def p)
  have step: "dict_merge a (p # b) = dict_merge (dict_set x y a) b"
    by (simp add: dict_merge_def p)
  have none: "dict_get b x = None" by (rule dict_get_None_key[OF notin])
  show ?case
    unfolding step Cons.IH[OF wf] dict_get_set
    using none by (auto simp: map_add_def dict_get_def p fun_eq_iff split: option.splits)
qed

lemma dict_merge_wins:
  "wf_dict b \<Longrightarrow>
   dict_get (dict_merge a b) k = (case dict_get b k of Some v \<Rightarrow> Some v | None \<Rightarrow> dict_get a k)"
  by (simp add: dict_get_merge map_add_def)

lemma set_dict_set: "set (dict_set k v d) \<subseteq> insert (k, v) (set d)"
  unfolding dict_set_def by (induction d) auto

lemma set_dict_merge: "set (dict_merge a b) \<subseteq> set a \<union> set b"
proof (induction b arbitrary: a)
  case Nil
  show ?case by (simp add: dict_merge_def)
next
  case (Cons p b)
  obtain x y where p: "p = (x, y)" by (cases p)
  have step: "dict_merge a (p # b) = dict_merge (dict_set x y a) b"
    by (simp add: dict_merge_def p)
  show ?case unfolding step using Cons.IH[of "dict_set x y a"] set_dict_set[of x y a]
    by (auto simp: p)
qed

lemma wf_dict_set: "wf_dict d \<Longrightarrow> wf_dict (dict_set k v d)"
  by (simp add: wf_dict_def dict_set_def distinct_update)

lemma wf_dict_merge: "wf_dict a \<Longrightarrow> wf_dict (dict_merge a b)"
proof (induction b arbitrary: a)
  case Nil
  then show ?case by (simp add: dict_merge_def)
next
  case (Cons p b)
  obtain x y where p: "p = (x, y)" by (cases p)
  have step: "dict_merge a (p # b) = dict_merge (dict_set x y a) b"
    by (simp add: dict_merge_def p)
  show ?case unfolding step by (rule Cons.IH) (rule wf_dict_set[OF Cons.prems])
qed

lemma wf_filtered_tags: "wf_dict tags \<Longrightarrow> wf_dict (filtered_tags tags)"
  by (simp add: wf_dict_def filtered_tags_def distinct_map_filter)

lemma filtered_tags_nonblank: "(k, v) \<in> set (filtered_tags tags) \<Longrightarrow> strip v \<noteq> []"
  by (simp add: filtered_tags_def)

lemma dict_get_filtered:
  "wf_dict tags \<Longrightarrow>
   dict_get (filtered_tags tags) k =
     (case dict_get tags k of Some v \<Rightarrow> if strip v \<noteq> [] then Some v else None | None \<Rightarrow> None)"
proof (induction tags)
  case Nil
  show ?case by (simp add: filtered_tags_def dict_get_def)
next
  case (Cons p tags)
  obtain x y where p: "p = (x, y)" by (cases p)
  from Cons.prems have wf: "wf_dict tags" and notin: "x \<notin> set (map fst tags)"
    by (simp_all add: wf_dict_def p)
  have none: "dict_get tags x = None" by (rule dict_get_None_key[OF notin])
  show ?case using Cons.IH[OF wf] none
    by (auto simp: filtered_tags_def dict_get_def p)
qed

lemma strip_empty_iff: "strip v = [] \<longleftrightarrow> (\<forall>c \<in> set v. isspace c)"
proof -
  have "(\<forall>x \<in> set (dropWhile isspace v). isspace x) \<longleftrightarrow> dropWhile isspace v = []"
  proof (cases "dropWhile isspace v = []")
    case True
    show ?thesis unfolding True by simp
  next
    case False
    then have "\<not> isspace (hd (dropWhile isspace v))" by (rule hd_dropWhile)
    moreover have "hd (dropWhile isspace v) \<in> set (dropWhile isspace v)"
      using False by (rule hd_in_set)
    ultimately show ?thesis using False by blast
  qed
  then show ?thesis
    unfolding strip_def by (simp add: dropWhile_eq_Nil_conv)
qed

lemma get_bucket_tagging_calls:
  "s3_calls (snd (get_bucket_tagging b w)) = s3_calls w @ [GetBucketTagging b]"
  by (simp add: get_bucket_tagging_def s3_called_def split: option.splits)

lemma get_bucket_tags_snd: "snd (get_bucket_tags b w) = s3_called (GetBucketTagging b) w"
  by (simp add: get_bucket_tags_def get_bucket_tagging_def split: option.splits exn.splits)

lemma get_bucket_tags_fst:
  "fst (get_bucket_tags b w) =
    (case get_fault w b of
       None \<Rightarrow> (case tag_sets w b of None \<Rightarrow> Inr [] | Some ts \<Rightarrow> Inr (dict_of_items ts))
     | Some (ClientError code) \<Rightarrow> if code = ''NoSuchTagSet'' then Inr [] else Inl (ClientError code)
     | Some BotoCoreError \<Rightarrow> Inl BotoCoreError)"
  by (simp add: get_bucket_tags_def get_bucket_tagging_def split: option.splits exn.splits)

lemma apply_tags_to_bucket_eq:
  "apply_tags_to_bucket b tags m d w =
    (case fst (get_bucket_tags b w) of
       Inl e \<Rightarrow> except_ClientError e (s3_called (GetBucketTagging b) w)
     | Inr existing \<Rightarrow>
        let w2 = backup_tags b existing (s3_called (GetBucketTagging b) w)
        in if d then (Inr True, w2)
           else (case put_bucket_tagging b (final_tags existing tags m) w2 of
                   (Some e, w3) \<Rightarrow> except_ClientError e w3
                 | (None, w3) \<Rightarrow> (Inr True, w3)))"
  unfolding apply_tags_to_bucket_def
  by (cases "get_bucket_tags b w") (use get_bucket_tags_snd[of b w] in \<open>auto split: sum.splits\<close>)

lemma except_ClientError_calls: "s3_calls (snd (except_ClientError e w)) = s3_calls w"
  by (simp add: except_ClientError_def split: exn.splits)

lemma apply_tags_to_bucket_calls:
  "s3_calls (snd (apply_tags_to_bucket b tags m d w)) =
     s3_calls w @ GetBucketTagging b #
       (case fst (get_bucket_tags b w) of
          Inl e \<Rightarrow> []
        | Inr existing \<Rightarrow> if d then [] else [PutBucketTagging b (final_tags existing tags m)])"
  unfolding apply_tags_to_bucket_eq
  by (auto simp: except_ClientError_def s3_called_def backup_tags_def put_bucket_tagging_def Let_def
      split: sum.splits exn.splits option.splits)

lemma apply_tags_to_bucket_fst:
  "fst (apply_tags_to_bucket b tags m d w) =
     (case get_fault w b of
        Some BotoCoreError \<Rightarrow> Inl BotoCoreError
      | Some (ClientError code) \<Rightarrow>
          if code = ''NoSuchTagSet'' then
            (if d then Inr True
             else (case put_fault w b of None \<Rightarrow> Inr True | Some (ClientError c) \<Rightarrow> Inr False
                   | Some BotoCoreError \<Rightarrow> Inl BotoCoreError))
          else Inr False
      | None \<Rightarrow>
          (if d then Inr True
             else (case put_fault w b of None \<Rightarrow> Inr True | Some (ClientError c) \<Rightarrow> Inr False
                   | Some BotoCoreError \<Rightarrow> Inl BotoCoreError)))"
  unfolding apply_tags_to_bucket_eq get_bucket_tags_fst
  by (auto simp: except_ClientError_def s3_called_def backup_tags_def put_bucket_tagging_def Let_def
      split: sum.splits exn.splits option.splits)

lemma apply_tags_to_bucket_frame:
  "get_fault (snd (apply_tags_to_bucket b tags m d w)) = get_fault w"
  "put_fault (snd (apply_tags_to_bucket b tags m d w)) = put_fault w"
  "list_buckets_reply (snd (apply_tags_to_bucket b tags m d w)) = list_buckets_reply w"
  "summaries (snd (apply_tags_to_bucket b tags m d w)) = summaries w"
  unfolding apply_tags_to_bucket_eq
  by (auto simp: except_ClientError_def s3_called_def backup_tags_def put_bucket_tagging_def Let_def
      split: sum.splits exn.splits option.splits)

lemma apply_tags_to_bucket_dry_run_store:
  "tag_sets (snd (apply_tags_to_bucket b tags m True w)) = tag_sets w"
  unfolding apply_tags_to_bucket_eq
  by (auto simp: except_ClientError_def s3_called_def backup_tags_def Let_def
      split: sum.splits exn.splits option.splits)

lemma apply_tags_to_bucket_Inr:
  "fst (apply_tags_to_bucket b tags m d w) = Inr ok \<Longrightarrow> ok = bucket_ok w d b"
  unfolding apply_tags_to_bucket_fst
  by (auto split: option.splits exn.splits if_splits)

lemma apply_tags_to_bucket_returns:
  "no_boto_fault w b \<Longrightarrow> fst (apply_tags_to_bucket b tags m d w) = Inr (bucket_ok w d b)"
  unfolding apply_tags_to_bucket_fst
  by (auto split: option.splits exn.splits if_splits)

lemma tag_buckets_faults:
  "get_fault w' = get_fault w \<Longrightarrow> put_fault w' = put_fault w \<Longrightarrow>
   fst (tag_buckets bs tags m d rs w') = fst (tag_buckets bs tags m d rs w)"
proof (induction bs arbitrary: rs w w')
  case Nil
  show ?case by simp
next
  case (Cons b bs)
  have eq: "fst (apply_tags_to_bucket b tags m d w') = fst (apply_tags_to_bucket b tags m d w)"
    unfolding apply_tags_to_bucket_fst Cons.prems by (rule refl)
  show ?case
  proof (cases "apply_tags_to_bucket b tags m d w")
    case (Pair r w1)
    obtain r' w1' where p': "apply_tags_to_bucket b tags m d w' = (r', w1')"
      by (cases "apply_tags_to_bucket b tags m d w'")
    have r: "r' = r" using eq Pair p' by simp
    have g: "get_fault w1' = get_fault w1" and p: "put_fault w1' = put_fault w1"
      using apply_tags_to_bucket_frame(1,2)[of b tags m d w]
        apply_tags_to_bucket_frame(1,2)[of b tags m d w'] Pair p' Cons.prems by simp_all
    show ?thesis
      using Cons.IH[OF g p] by (simp add: Pair p' r split: sum.splits)
  qed
qed

lemma tag_buckets_frame:
  "get_fault (snd (tag_buckets bs tags m d rs w)) = get_fault w
   \<and> put_fault (snd (tag_buckets bs tags m d rs w)) = put_fault w
   \<and> list_buckets_reply (snd (tag_buckets bs tags m d rs w)) = list_buckets_reply w
   \<and> summaries (snd (tag_buckets bs tags m d rs w)) = summaries w"
proof (induction bs arbitrary: rs w)
  case Nil
  show ?case by simp
next
  case (Cons b bs)
  show ?case
  proof (cases "apply_tags_to_bucket b tags m d w")
    case (Pair r w1)
    have fr: "get_fault w1 = get_fault w" "put_fault w1 = put_fault w"
      "list_buckets_reply w1 = list_buckets_reply w" "summaries w1 = summaries w"
      using apply_tags_to_bucket_frame[of b tags m d w] Pair by simp_all
    show ?thesis
    proof (cases r)
      case (Inl e)
      then show ?thesis using Pair fr by simp
    next
      case (Inr ok)
      then show ?thesis using Pair fr Cons.IH[of "AList.update b ok rs" w1] by simp
    qed
  qed
qed

lemma tag_buckets_results:
  "fst (tag_buckets bs tags m d rs w) = Inr results \<Longrightarrow>
   map_of results = (\<lambda>b. if b \<in> set bs then Some (bucket_ok w d b) else map_of rs b)
   \<and> set (map fst results) = set bs \<union> set (map fst rs)
   \<and> (distinct (map fst rs) \<longrightarrow> distinct (map fst results))"
proof (induction bs arbitrary: rs w)
  case Nil
  then show ?case by simp
next
  case (Cons b bs)
  show ?case
  proof (cases "apply_tags_to_bucket b tags m d w")
    case (Pair r w1)
    have fr: "get_fault w1 = get_fault w" "put_fault w1 = put_fault w"
      using apply_tags_to_bucket_frame(1,2)[of b tags m d w] Pair by simp_all
    show ?thesis
    proof (cases r)
      case (Inl e)
      then show ?thesis using Pair Cons.prems by simp
    next
      case (Inr ok)
      have ok: "ok = bucket_ok w d b"
        by (rule apply_tags_to_bucket_Inr[of b tags m]) (simp add: Pair Inr)
      have "fst (tag_buckets bs tags m d (AList.update b ok rs) w1) = Inr results"
        using Cons.prems Pair Inr by simp
      from Cons.IH[OF this] show ?thesis
        unfolding fr ok by (auto simp: update_conv' dom_update distinct_update fun_eq_iff)
    qed
  qed
qed

lemma tag_buckets_returns:
  "\<forall>b \<in> set bs. no_boto_fault w b \<Longrightarrow> \<exists>results. fst (tag_buckets bs tags m d rs w) = Inr results"
proof (induction bs arbitrary: rs w)
  case Nil
  show ?case by simp
next
  case (Cons b bs)
  have r: "fst (apply_tags_to_bucket b tags m d w) = Inr (bucket_ok w d b)"
    by (rule apply_tags_to_bucket_returns) (use Cons.prems in simp)
  obtain r1 w1 where p: "apply_tags_to_bucket b tags m d w = (r1, w1)"
    by (cases "apply_tags_to_bucket b tags m d w")
  have fr: "get_fault w1 = get_fault w" "put_fault w1 = put_fault w"
    using apply_tags_to_bucket_frame(1,2)[of b tags m d w] p by simp_all
  have "\<forall>b \<in> set bs. no_boto_fault w1 b" using Cons.prems fr by simp
  from Cons.IH[OF this] show ?case using p r by simp
qed

lemma tag_buckets_calls:
  "\<exists>extra. s3_calls (snd (tag_buckets bs tags m d rs w)) = s3_calls w @ extra
     \<and> (\<forall>c \<in> set extra. \<exists>b \<in> set bs. call_bucket c = Some b)
     \<and> (d \<longrightarrow> filter mutating extra = [])"
proof (induction bs arbitrary: rs w)
  case Nil
  show ?case by simp
next
  case (Cons b bs)
  obtain r1 w1 where p: "apply_tags_to_bucket b tags m d w = (r1, w1)"
    by (cases "apply_tags_to_bucket b tags m d w")
  have c1: "\<exists>extra. s3_calls w1 = s3_calls w @ extra
     \<and> (\<forall>c \<in> set extra. call_bucket c = Some b) \<and> (d \<longrightarrow> filter mutating extra = [])"
    using apply_tags_to_bucket_calls[of b tags m d w] p by (auto split: sum.splits)
  show ?case
  proof (cases r1)
    case (Inl e)
    then show ?thesis using p c1 by auto
  next
    case (Inr ok)
    obtain e1 where e1: "s3_calls w1 = s3_calls w @ e1" "\<forall>c \<in> set e1. call_bucket c = Some b"
      "d \<longrightarrow> filter mutating e1 = []" using c1 by blast
    obtain e2 where e2: "s3_calls (snd (tag_buckets bs tags m d (AList.update b ok rs) w1)) = s3_calls w1 @ e2"
      "\<forall>c \<in> set e2. \<exists>b \<in> set bs. call_bucket c = Some b" "d \<longrightarrow> filter mutating e2 = []"
      using Cons.IH[of "AList.update b ok rs" w1] by blast
    have "s3_calls (snd (tag_buckets (b # bs) tags m d rs w)) = s3_calls w @ (e1 @ e2)"
      using p Inr e1(1) e2(1) by simp
    moreover have "\<forall>c \<in> set (e1 @ e2). \<exists>b' \<in> set (b # bs). call_bucket c = Some b'"
      using e1(2) e2(2) by auto
    moreover have "d \<longrightarrow> filter mutating (e1 @ e2) = []" using e1(3) e2(3) by simp
    ultimately show ?thesis by blast
  qed
qed

lemma tag_buckets_dry_run_store:
  "tag_sets (snd (tag_buckets bs tags m True rs w)) = tag_sets w"
proof (induction bs arbitrary: rs w)
  case Nil
  show ?case by simp
next
  case (Cons b bs)
  obtain r1 w1 where p: "apply_tags_to_bucket b tags m True w = (r1, w1)"
    by (cases "apply_tags_to_bucket b tags m True w")
  have "tag_sets w1 = tag_sets w" using apply_tags_to_bucket_dry_run_store[of b tags m w] p by simp
  then show ?case using p Cons.IH by (cases r1) simp_all
qed

lemma successful_count: "successful results = length (filter snd results)"
  unfolding successful_def by (induction results) auto

lemma tag_all_bucket_eq:
  "list_buckets_reply w = Inr buckets \<Longrightarrow>
   tag_all_bucket tags m d f w =
     (case tag_buckets (filter (passes_filter f) buckets) tags m d [] (s3_called ListBuckets w) of
        (Inl e, w2) \<Rightarrow> (Inl e, w2)
      | (Inr results, w2) \<Rightarrow>
          (Inr results, w2\<lparr>summaries := summaries w2 @ [(successful results, length results)]\<rparr>))"
  by (simp add: tag_all_bucket_def list_buckets_def)

lemma tag_all_bucket_fst:
  "list_buckets_reply w = Inr buckets \<Longrightarrow>
   fst (tag_all_bucket tags m d f w) =
     fst (tag_buckets (filter (passes_filter f) buckets) tags m d [] (s3_called ListBuckets w))"
  by (simp add: tag_all_bucket_eq split: prod.splits sum.splits)

lemma tag_all_bucket_listing_fails:
  "list_buckets_reply w = Inl e \<Longrightarrow> tag_all_bucket tags m d f w = (Inl e, s3_called ListBuckets w)"
  by (simp add: tag_all_bucket_def list_buckets_def)

lemma tag_all_bucket_frame:
  "get_fault (snd (tag_all_bucket tags m d f w)) = get_fault w
   \<and> put_fault (snd (tag_all_bucket tags m d f w)) = put_fault w
   \<and> list_buckets_reply (snd (tag_all_bucket tags m d f w)) = list_buckets_reply w"
proof (cases "list_buckets_reply w")
  case (Inl e)
  then show ?thesis by (simp add: tag_all_bucket_listing_fails s3_called_def)
next
  case (Inr buckets)
  show ?thesis
    using tag_buckets_frame[of "filter (passes_filter f) buckets" tags m d "[]" "s3_called ListBuckets w"]
    by (auto simp: tag_all_bucket_eq[OF Inr] s3_called_def split: prod.splits sum.splits)
qed

lemma tag_all_bucket_calls:
  "list_buckets_reply w = Inr buckets \<Longrightarrow>
   \<exists>extra. s3_calls (snd (tag_all_bucket tags m d f w)) = s3_calls w @ ListBuckets # extra
     \<and> (\<forall>c \<in> set extra. \<exists>b \<in> set buckets. passes_filter f b \<and> call_bucket c = Some b)
     \<and> (d \<longrightarrow> filter mutating extra = [])"
proof -
  assume l: "list_buckets_reply w = Inr buckets"
  obtain extra where e:
    "s3_calls (snd (tag_buckets (filter (passes_filter f) buckets) tags m d [] (s3_called ListBuckets w)))
       = s3_calls (s3_called ListBuckets w) @ extra"
    "\<forall>c \<in> set extra. \<exists>b \<in> set (filter (passes_filter f) buckets). call_bucket c = Some b"
    "d \<longrightarrow> filter mutating extra = []"
    using tag_buckets_calls[of "filter (passes_filter f) buckets" tags m d "[]" "s3_called ListBuckets w"]
    by blast
  have "s3_calls (snd (tag_all_bucket tags m d f w)) = s3_calls w @ ListBuckets # extra"
    using e(1) by (auto simp: tag_all_bucket_eq[OF l] s3_called_def split: prod.splits sum.splits)
  moreover have "\<forall>c \<in> set extra. \<exists>b \<in> set buckets. passes_filter f b \<and> call_bucket c = Some b"
    using e(2) by auto
  ultimately show ?thesis using e(3) by blast
qed

lemma tag_all_bucket_dry_run_calls:
  "filter mutating (s3_calls (snd (tag_all_bucket tags m True f w))) = filter mutating (s3_calls w)"
proof (cases "list_buckets_reply w")
  case (Inl e)
  then show ?thesis by (simp add: tag_all_bucket_listing_fails s3_called_def)
next
  case (Inr buckets)
  show ?thesis using tag_all_bucket_calls[OF Inr, of tags m True f] by auto
qed

lemma tag_all_bucket_dry_run_store:
  "tag_sets (snd (tag_all_bucket tags m True f w)) = tag_sets w"
proof (cases "list_buckets_reply w")
  case (Inl e)
  then show ?thesis by (simp add: tag_all_bucket_listing_fails s3_called_def)
next
  case (Inr buckets)
  show ?thesis
    using tag_buckets_dry_run_store[of "filter (passes_filter f) buckets" tags m "[]" "s3_called ListBuckets w"]
    by (auto simp: tag_all_bucket_eq[OF Inr] s3_called_def split: prod.splits sum.splits)
qed

lemma tag_all_bucket_faults:
  "list_buckets_reply w' = list_buckets_reply w \<Longrightarrow> get_fault w' = get_fault w \<Longrightarrow>
   put_fault w' = put_fault w \<Longrightarrow>
   fst (tag_all_bucket tags m d f w') = fst (tag_all_bucket tags m d f w)"
proof (cases "list_buckets_reply w")
  case (Inl e)
  assume "list_buckets_reply w' = list_buckets_reply w"
  then show ?thesis using Inl by (simp add: tag_all_bucket_listing_fails)
next
  case (Inr buckets)
  assume a: "list_buckets_reply w' = list_buckets_reply w" "get_fault w' = get_fault w"
    "put_fault w' = put_fault w"
  have l': "list_buckets_reply w' = Inr buckets" using a Inr by simp
  show ?thesis
    unfolding tag_all_bucket_fst[OF Inr] tag_all_bucket_fst[OF l']
    by (rule tag_buckets_faults) (simp_all add: s3_called_def a)
qed

lemma tag_all_bucket_summary:
  "tag_all_bucket tags m d f w = (Inr results, w') \<Longrightarrow>
   summaries w' = summaries w @ [(length (filter snd results), length results)]"
proof (cases "list_buckets_reply w")
  case (Inl e)
  assume "tag_all_bucket tags m d f w = (Inr results, w')"
  then show ?thesis using Inl by (simp add: tag_all_bucket_listing_fails)
next
  case (Inr buckets)
  assume r: "tag_all_bucket tags m d f w = (Inr results, w')"
  show ?thesis
    using r tag_buckets_frame[of "filter (passes_filter f) buckets" tags m d "[]" "s3_called ListBuckets w"]
    by (auto simp: tag_all_bucket_eq[OF Inr] s3_called_def successful_count split: prod.splits sum.splits)
qed

lemma remove_dry_run:
  "s3_calls (snd (remove_tags_from_bucket b ks True w)) = s3_calls w @ [GetBucketTagging b]
   \<and> tag_sets (snd (remove_tags_from_bucket b ks True w)) = tag_sets w
   \<and> fst (remove_tags_from_bucket b ks True w) =
       (case fst (get_bucket_tags b w) of Inr existing \<Rightarrow> Inr True
        | Inl (ClientError c) \<Rightarrow> Inr False | Inl BotoCoreError \<Rightarrow> Inl BotoCoreError)"
  unfolding remove_tags_from_bucket_def
  using get_bucket_tags_snd[of b w]
  by (cases "get_bucket_tags b w")
     (auto simp: except_ClientError_def s3_called_def Let_def split: sum.splits exn.splits)

lemma apply_dry_run:
  "s3_calls (snd (apply_tags_to_bucket b tags m True w)) = s3_calls w @ [GetBucketTagging b]
   \<and> tag_sets (snd (apply_tags_to_bucket b tags m True w)) = tag_sets w
   \<and> fst (apply_tags_to_bucket b tags m True w) =
       (case fst (get_bucket_tags b w) of Inr existing \<Rightarrow> Inr True
        | Inl (ClientError c) \<Rightarrow> Inr False | Inl BotoCoreError \<Rightarrow> Inl BotoCoreError)"
  unfolding apply_tags_to_bucket_eq
  by (auto simp: except_ClientError_def s3_called_def backup_tags_def Let_def split: sum.splits exn.splits)

lemmas s3_eval =
  tag_all_bucket_def list_buckets_def apply_tags_to_bucket_def remove_tags_from_bucket_def
  get_bucket_tags_def get_bucket_tagging_def put_bucket_tagging_def delete_bucket_tagging_def
  except_ClientError_def backup_tags_def final_tags_def filtered_tags_def dict_merge_def
  dict_set_def dict_of_items_def dict_get_def s3_called_def s3_client_def passes_filter_def
  successful_def strip_def isspace_def whitespace_def wf_dict_def Let_def

text \<open>
  C2 (amended). In merge mode \<open>apply_tags_to_bucket\<close> sends the union of the current tags
  and the desired tags that are left after the tags with an empty or whitespace-only value
  have been dropped: for a key of such a desired tag the sent value is the desired one, for
  every other key the current value stays (also for a key whose desired value is blank).
  When no desired value is blank this is the union in which the desired value wins for
  every overlapping key. The plain merge \<open>{**current, **tags}\<close> of \<open>tag_rules\<close> and of
  tag_s3.py always lets the desired value win.
\<close>

theorem merge_sends_filtered_union:
  assumes "wf_dict tags"
    and "fst (get_bucket_tags bucket_name w) = Inr existing_tags"
    and "put_fault w bucket_name = None"
  shows "fst (apply_tags_to_bucket bucket_name tags True False w) = Inr True
     \<and> s3_calls (snd (apply_tags_to_bucket bucket_name tags True False w)) =
         s3_calls w @ [GetBucketTagging bucket_name,
                       PutBucketTagging bucket_name (final_tags existing_tags tags True)]
     \<and> tag_sets (snd (apply_tags_to_bucket bucket_name tags True False w)) bucket_name =
         Some (final_tags existing_tags tags True)
     \<and> dict_get (final_tags existing_tags tags True) k =
         (case dict_get tags k of
            Some v \<Rightarrow> if strip v \<noteq> [] then Some v else dict_get existing_tags k
          | None \<Rightarrow> dict_get existing_tags k)
     \<and> ((\<forall>v \<in> snd ` set tags. strip v \<noteq> []) \<longrightarrow>
          dict_get (final_tags existing_tags tags True) = dict_get existing_tags ++ dict_get tags)
     \<and> dict_get (dict_merge existing_tags tags) k =
         (case dict_get tags k of Some v \<Rightarrow> Some v | None \<Rightarrow> dict_get existing_tags k)"
proof -
  have 1: "fst (apply_tags_to_bucket bucket_name tags True False w) = Inr True"
    unfolding apply_tags_to_bucket_eq using assms(2,3)
    by (simp add: put_bucket_tagging_def backup_tags_def s3_called_def Let_def)
  have 2: "s3_calls (snd (apply_tags_to_bucket bucket_name tags True False w)) =
         s3_calls w @ [GetBucketTagging bucket_name,
                       PutBucketTagging bucket_name (final_tags existing_tags tags True)]"
    unfolding apply_tags_to_bucket_calls using assms(2) by simp
  have 3: "tag_sets (snd (apply_tags_to_bucket bucket_name tags True False w)) bucket_name =
         Some (final_tags existing_tags tags True)"
    unfolding apply_tags_to_bucket_eq using assms(2,3)
    by (simp add: put_bucket_tagging_def backup_tags_def s3_called_def Let_def)
  have 4: "dict_get (final_tags existing_tags tags True) k =
         (case dict_get tags k of
            Some v \<Rightarrow> if strip v \<noteq> [] then Some v else dict_get existing_tags k
          | None \<Rightarrow> dict_get existing_tags k)"
    using assms(1)
    by (simp add: final_tags_def dict_merge_wins wf_filtered_tags dict_get_filtered
        split: option.splits)
  have 5: "(\<forall>v \<in> snd ` set tags. strip v \<noteq> []) \<longrightarrow>
          dict_get (final_tags existing_tags tags True) = dict_get existing_tags ++ dict_get tags"
  proof
    assume "\<forall>v \<in> snd ` set tags. strip v \<noteq> []"
    then have "filtered_tags tags = tags"
      by (auto simp: filtered_tags_def filter_id_conv)
    then show "dict_get (final_tags existing_tags tags True) = dict_get existing_tags ++ dict_get tags"
      using assms(1) by (simp add: final_tags_def dict_get_merge)
  qed
  have 6: "dict_get (dict_merge existing_tags tags) k =
         (case dict_get tags k of Some v \<Rightarrow> Some v | None \<Rightarrow> dict_get existing_tags k)"
    by (rule dict_merge_wins[OF assms(1)])
  from 1 2 3 4 5 6 show ?thesis by blast
qed

theorem merge_sends_filtered_union_witness:
  "s3_calls (snd (apply_tags_to_bucket ''bkt'' [(''b'', ''3''), (''c'', ''4'')] True False
      (s3_client [''bkt''] (\<lambda>b. Some [(''a'', ''1''), (''b'', ''2'')]) (\<lambda>b. None) (\<lambda>b. None)))) =
     [GetBucketTagging ''bkt'',
      PutBucketTagging ''bkt'' [(''a'', ''1''), (''b'', ''3''), (''c'', ''4'')]]
   \<and> dict_merge [(''a'', ''1''), (''b'', ''2'')] [(''b'', ''3''), (''c'', ''4'')] =
       [(''a'', ''1''), (''b'', ''3''), (''c'', ''4'')]"
proof -
  let ?w = "s3_client [''bkt''] (\<lambda>b. Some [(''a'', ''1''), (''b'', ''2'')]) (\<lambda>b. None) (\<lambda>b. None)"
  have h1: "wf_dict [(''b'', ''3''), (''c'', ''4'')]" by (simp add: wf_dict_def)
  have h2: "fst (get_bucket_tags ''bkt'' ?w) = Inr [(''a'', ''1''), (''b'', ''2'')]"
    by (simp add: s3_eval)
  have h3: "put_fault ?w ''bkt'' = None" by (simp add: s3_client_def)
  have f: "final_tags [(''a'', ''1''), (''b'', ''2'')] [(''b'', ''3''), (''c'', ''4'')] True =
      [(''a'', ''1''), (''b'', ''3''), (''c'', ''4'')]"
    by (simp add: s3_eval)
  have m: "dict_merge [(''a'', ''1''), (''b'', ''2'')] [(''b'', ''3''), (''c'', ''4'')] =
       [(''a'', ''1''), (''b'', ''3''), (''c'', ''4'')]"
    by (simp add: s3_eval)
  show ?thesis
    using merge_sends_filtered_union[OF h1 h2 h3, of "''b''"] f m by (simp add: s3_client_def)
qed

theorem merge_blank_desired_counterexample:
  "s3_calls (snd (apply_tags_to_bucket ''bkt'' [(''a'', '''')] True False
      (s3_client [''bkt''] (\<lambda>b. Some [(''a'', ''1'')]) (\<lambda>b. None) (\<lambda>b. None)))) =
     [GetBucketTagging ''bkt'', PutBucketTagging ''bkt'' [(''a'', ''1'')]]
   \<and> dict_get [(''a'', '''')] ''a'' = Some ''''"
  by (simp add: s3_eval)

lemma apply_tags_success:
  "tag_resource_reply w (tag_resource_count w) = None \<Longrightarrow>
   apply_tags (Suc room) a nm tags w =
     (True, wait_with_jitter (print (SuccessfullyTagged nm) (called (TagResource a tags) w)))"
  by (simp add: apply_tags.simps tag_resource_def)

text \<open>
  C3 (amended). \<open>apply_tags_to_bucket\<close> drops from the desired tags every tag whose value
  is empty or only whitespace before it merges, so a blank value in the tag set it sends
  never comes from the desired tags: such a tag is sent only in merge mode, and only when
  the current tags hold that key with that blank value. \<open>apply_tags\<close> of
  tag_eventbridge.py sends its tag map as it is given, blank values included.
\<close>

theorem blank_values_come_from_existing:
  assumes "fst (get_bucket_tags bucket_name w) = Inr existing_tags"
  shows "s3_calls (snd (apply_tags_to_bucket bucket_name tags merge_existing False w)) =
           s3_calls w @ [GetBucketTagging bucket_name,
             PutBucketTagging bucket_name (final_tags existing_tags tags merge_existing)]
     \<and> (\<forall>(k, v) \<in> set (final_tags existing_tags tags merge_existing).
           strip v = [] \<longrightarrow>
             merge_existing \<and> (k, v) \<in> set existing_tags \<and> (k, v) \<notin> set (filtered_tags tags))
     \<and> (tag_resource_reply ew (tag_resource_count ew) = None \<longrightarrow>
           ev_calls (snd (apply_tags (Suc room) rule_arn rule_name tags ew)) =
             ev_calls ew @ [TagResource rule_arn tags, SleepJitter])"
proof -
  have 1: "s3_calls (snd (apply_tags_to_bucket bucket_name tags merge_existing False w)) =
           s3_calls w @ [GetBucketTagging bucket_name,
             PutBucketTagging bucket_name (final_tags existing_tags tags merge_existing)]"
    unfolding apply_tags_to_bucket_calls using assms by simp
  have 2: "\<forall>(k, v) \<in> set (final_tags existing_tags tags merge_existing).
           strip v = [] \<longrightarrow>
             merge_existing \<and> (k, v) \<in> set existing_tags \<and> (k, v) \<notin> set (filtered_tags tags)"
  proof (clarify, intro conjI)
    fix k v
    assume in_final: "(k, v) \<in> set (final_tags existing_tags tags merge_existing)"
      and blank: "strip v = []"
    have notf: "(k, v) \<notin> set (filtered_tags tags)"
      using blank filtered_tags_nonblank[of k v tags] by blast
    then show "(k, v) \<notin> set (filtered_tags tags)" .
    show m: "merge_existing"
      using in_final notf by (cases merge_existing) (simp_all add: final_tags_def)
    show "(k, v) \<in> set existing_tags"
      using in_final notf m set_dict_merge[of existing_tags "filtered_tags tags"]
      by (auto simp: final_tags_def)
  qed
  have 3: "tag_resource_reply ew (tag_resource_count ew) = None \<longrightarrow>
           ev_calls (snd (apply_tags (Suc room) rule_arn rule_name tags ew)) =
             ev_calls ew @ [TagResource rule_arn tags, SleepJitter]"
    by (simp add: apply_tags_success wait_with_jitter_def called_def print_def)
  from 1 2 3 show ?thesis by blast
qed

theorem blank_values_come_from_existing_witness:
  "s3_calls (snd (apply_tags_to_bucket ''bkt'' [(''x'', ''''), (''y'', ''1'')] False False
      (s3_client [''bkt''] (\<lambda>b. Some [(''x'', ''old'')]) (\<lambda>b. None) (\<lambda>b. None)))) =
     [GetBucketTagging ''bkt'', PutBucketTagging ''bkt'' [(''y'', ''1'')]]
   \<and> ev_calls (snd
       (apply_tags (Suc 999) ''arn:r'' ''r'' [(''x'', ''''), (''y'', ''1'')]
          (events_client [] (\<lambda>a. Inr []) (\<lambda>n. None)))) =
     [TagResource ''arn:r'' [(''x'', ''''), (''y'', ''1'')], SleepJitter]"
proof -
  let ?w = "s3_client [''bkt''] (\<lambda>b. Some [(''x'', ''old'')]) (\<lambda>b. None) (\<lambda>b. None)"
  let ?ew = "events_client [] (\<lambda>a. Inr []) (\<lambda>n. None)"
  have h: "fst (get_bucket_tags ''bkt'' ?w) = Inr [(''x'', ''old'')]"
    by (simp add: s3_eval)
  have f: "final_tags [(''x'', ''old'')] [(''x'', ''''), (''y'', ''1'')] False = [(''y'', ''1'')]"
    by (simp add: s3_eval)
  have e: "tag_resource_reply ?ew (tag_resource_count ?ew) = None"
    by (simp add: events_client_def)
  have c: "ev_calls ?ew = []" by (simp add: events_client_def)
  show ?thesis
    using blank_values_come_from_existing[OF h, of "[(''x'', ''''), (''y'', ''1'')]" False ?ew
        999 "''arn:r''" "''r''"] f e c
    by (simp add: s3_client_def)
qed

theorem blank_value_sent_counterexample:
  "s3_calls (snd (apply_tags_to_bucket ''bkt'' [(''y'', ''1'')] True False
      (s3_client [''bkt''] (\<lambda>b. Some [(''x'', '''')]) (\<lambda>b. None) (\<lambda>b. None)))) =
     [GetBucketTagging ''bkt'', PutBucketTagging ''bkt'' [(''x'', ''''), (''y'', ''1'')]]
   \<and> ev_calls (snd
       (apply_tags (Suc 999) ''arn:r'' ''r'' [(''x'', '''')]
          (events_client [] (\<lambda>a. Inr []) (\<lambda>n. None)))) =
     [TagResource ''arn:r'' [(''x'', '''')], SleepJitter]"
proof -
  have "apply_tags (Suc 999) ''arn:r'' ''r'' [(''x'', '''')]
      (events_client [] (\<lambda>a. Inr []) (\<lambda>n. None)) =
    (True, wait_with_jitter (print (SuccessfullyTagged ''r'')
      (called (TagResource ''arn:r'' [(''x'', '''')]) (events_client [] (\<lambda>a. Inr []) (\<lambda>n. None)))))"
    by (rule apply_tags_success) (simp add: events_client_def)
  then show ?thesis
    by (simp add: s3_eval wait_with_jitter_def called_def print_def events_client_def)
qed

lemma s3_apply_tags_frame:
  "get_fault (snd (s3_apply_tags b w)) = get_fault w
   \<and> put_fault (snd (s3_apply_tags b w)) = put_fault w"
  by (auto simp: s3_apply_tags_def get_existing_tags_def get_bucket_tagging_def
      put_bucket_tagging_def s3_called_def split: option.splits exn.splits)

lemma s3_apply_tags_fst:
  "fst (s3_apply_tags b w) = None \<longleftrightarrow> bucket_ok w False b"
  by (auto simp: s3_apply_tags_def get_existing_tags_def get_bucket_tagging_def
      put_bucket_tagging_def s3_called_def split: option.splits exn.splits)

lemma s3_main_loop_fst:
  "fst (s3_main_loop bs errors w) = errors @ filter (\<lambda>b. \<not> bucket_ok w False b) bs"
proof (induction bs arbitrary: errors w)
  case Nil
  show ?case by simp
next
  case (Cons b bs)
  obtain r w1 where p: "s3_apply_tags b w = (r, w1)" by (cases "s3_apply_tags b w")
  have fr: "get_fault w1 = get_fault w" "put_fault w1 = put_fault w"
    using s3_apply_tags_frame[of b w] p by simp_all
  have r: "r = None \<longleftrightarrow> bucket_ok w False b" using s3_apply_tags_fst[of b w] p by simp
  show ?case
  proof (cases r)
    case None
    then show ?thesis using p r Cons.IH[of errors w1] fr by simp
  next
    case (Some e)
    then show ?thesis using p r Cons.IH[of "errors @ [b]" w1] fr by simp
  qed
qed

lemma s3_main_fst:
  "list_buckets_reply w = Inr buckets \<Longrightarrow>
   fst (s3_main w) = Inr (filter (\<lambda>b. \<not> bucket_ok w False b) buckets)"
  using s3_main_loop_fst[of buckets "[]" "s3_called ListBuckets w"]
  by (auto simp: s3_main_def s3_called_def split: prod.splits)

text \<open>
  C6 (amended). For every list of buckets, a fetch or put that fails with a \<open>ClientError\<close>
  does not abort \<open>tag_all_bucket\<close>: when no call raises another exception the run returns
  a result for every bucket that passes the filter, and the outcome recorded for a bucket
  depends on the faults of that bucket alone (\<open>False\<close> when its fetch or put fails,
  \<open>True\<close> otherwise). \<open>main\<close> of tag_s3.py catches every exception per bucket: it logs
  exactly the buckets whose fetch or put fails and goes through all of them.
\<close>

theorem client_errors_are_isolated:
  assumes "list_buckets_reply w = Inr buckets"
  shows "((\<forall>b \<in> set buckets.
            get_fault w b \<noteq> Some BotoCoreError \<and> put_fault w b \<noteq> Some BotoCoreError) \<longrightarrow>
          (\<exists>results. fst (tag_all_bucket tags merge_existing dry_run bucket_filter w) = Inr results
             \<and> set (map fst results) = {b \<in> set buckets. passes_filter bucket_filter b}
             \<and> (\<forall>b \<in> set (map fst results).
                  map_of results b =
                    Some ((get_fault w b = None \<or> get_fault w b = Some (ClientError ''NoSuchTagSet''))
                          \<and> (dry_run \<or> put_fault w b = None)))))
     \<and> fst (s3_main w) =
         Inr (filter (\<lambda>b. \<not> ((get_fault w b = None \<or> get_fault w b = Some (ClientError ''NoSuchTagSet''))
                             \<and> put_fault w b = None)) buckets)"
proof (intro conjI impI)
  assume nb: "\<forall>b \<in> set buckets.
            get_fault w b \<noteq> Some BotoCoreError \<and> put_fault w b \<noteq> Some BotoCoreError"
  let ?bs = "filter (passes_filter bucket_filter) buckets"
  let ?w = "s3_called ListBuckets w"
  have "\<forall>b \<in> set ?bs. no_boto_fault ?w b" using nb by (simp add: s3_called_def)
  then obtain results where r: "fst (tag_buckets ?bs tags merge_existing dry_run [] ?w) = Inr results"
    using tag_buckets_returns by blast
  have f: "fst (tag_all_bucket tags merge_existing dry_run bucket_filter w) = Inr results"
    using r by (simp add: tag_all_bucket_fst[OF assms])
  have p: "map_of results = (\<lambda>b. if b \<in> set ?bs then Some (bucket_ok ?w dry_run b) else map_of [] b)"
    "set (map fst results) = set ?bs \<union> set (map fst [])"
    using tag_buckets_results[OF r] by simp_all
  have "set (map fst results) = {b \<in> set buckets. passes_filter bucket_filter b}"
    using p(2) by auto
  moreover have "\<forall>b \<in> set (map fst results).
                  map_of results b =
                    Some ((get_fault w b = None \<or> get_fault w b = Some (ClientError ''NoSuchTagSet''))
                          \<and> (dry_run \<or> put_fault w b = None))"
    using p by (simp add: s3_called_def)
  ultimately show "\<exists>results. fst (tag_all_bucket tags merge_existing dry_run bucket_filter w) = Inr results
             \<and> set (map fst results) = {b \<in> set buckets. passes_filter bucket_filter b}
             \<and> (\<forall>b \<in> set (map fst results).
                  map_of results b =
                    Some ((get_fault w b = None \<or> get_fault w b = Some (ClientError ''NoSuchTagSet''))
                          \<and> (dry_run \<or> put_fault w b = None)))"
    using f by blast
next
  show "fst (s3_main w) =
         Inr (filter (\<lambda>b. \<not> ((get_fault w b = None \<or> get_fault w b = Some (ClientError ''NoSuchTagSet''))
                             \<and> put_fault w b = None)) buckets)"
    using s3_main_fst[OF assms] by simp
qed

theorem client_errors_are_isolated_witness:
  "fst (tag_all_bucket [(''env'', ''prod'')] True False None
      (s3_client [''b1'', ''b2'', ''b3''] (\<lambda>b. None)
         (\<lambda>b. if b = ''b2'' then Some (ClientError ''AccessDenied'') else None) (\<lambda>b. None))) =
     Inr [(''b1'', True), (''b2'', False), (''b3'', True)]
   \<and> fst (s3_main
      (s3_client [''b1'', ''b2'', ''b3''] (\<lambda>b. None)
         (\<lambda>b. if b = ''b2'' then Some (ClientError ''AccessDenied'') else None) (\<lambda>b. None))) =
     Inr [''b2'']"
proof -
  let ?w = "s3_client [''b1'', ''b2'', ''b3''] (\<lambda>b. None)
         (\<lambda>b. if b = ''b2'' then Some (ClientError ''AccessDenied'') else None) (\<lambda>b. None)"
  have h: "list_buckets_reply ?w = Inr [''b1'', ''b2'', ''b3'']" by (simp add: s3_client_def)
  have e: "fst (tag_all_bucket [(''env'', ''prod'')] True False None ?w) =
     Inr [(''b1'', True), (''b2'', False), (''b3'', True)]"
    by (simp add: s3_eval)
  show ?thesis
    using client_errors_are_isolated[OF h, of "[(''env'', ''prod'')]" True False None] e
    by (simp add: s3_client_def)
qed

theorem other_exception_aborts_counterexample:
  "fst (tag_all_bucket [(''env'', ''prod'')] True False None
      (s3_client [''b1'', ''b2'', ''b3''] (\<lambda>b. None)
         (\<lambda>b. if b = ''b2'' then Some BotoCoreError else None) (\<lambda>b. None))) =
     Inl BotoCoreError
   \<and> s3_calls (snd (tag_all_bucket [(''env'', ''prod'')] True False None
      (s3_client [''b1'', ''b2'', ''b3''] (\<lambda>b. None)
         (\<lambda>b. if b = ''b2'' then Some BotoCoreError else None) (\<lambda>b. None)))) =
     [ListBuckets, GetBucketTagging ''b1'', PutBucketTagging ''b1'' [(''env'', ''prod'')],
      GetBucketTagging ''b2'']
   \<and> summaries (snd (tag_all_bucket [(''env'', ''prod'')] True False None
      (s3_client [''b1'', ''b2'', ''b3''] (\<lambda>b. None)
         (\<lambda>b. if b = ''b2'' then Some BotoCoreError else None) (\<lambda>b. None)))) = []"
  by (simp add: s3_eval)

text \<open>
  C9 (amended). With \<open>dry_run\<close> the apply and the remove operation make one remote call,
  the tag fetch, and no mutating call; the stored tag sets are unchanged. They return
  \<open>True\<close> when the fetch succeeds, \<open>False\<close> when it fails with a \<open>ClientError\<close> other
  than \<open>NoSuchTagSet\<close>, and raise any other exception. A dry run of \<open>tag_all_bucket\<close>
  makes no mutating call, and run again on the state the first run left it produces the
  same result.
\<close>

theorem dry_run_never_mutates:
  "s3_calls (snd (apply_tags_to_bucket bucket_name tags merge_existing True w)) =
      s3_calls w @ [GetBucketTagging bucket_name]
   \<and> tag_sets (snd (apply_tags_to_bucket bucket_name tags merge_existing True w)) = tag_sets w
   \<and> fst (apply_tags_to_bucket bucket_name tags merge_existing True w) =
       (case fst (get_bucket_tags bucket_name w) of
          Inr existing_tags \<Rightarrow> Inr True
        | Inl (ClientError code) \<Rightarrow> Inr False
        | Inl BotoCoreError \<Rightarrow> Inl BotoCoreError)
   \<and> s3_calls (snd (remove_tags_from_bucket bucket_name tag_keys True w)) =
      s3_calls w @ [GetBucketTagging bucket_name]
   \<and> tag_sets (snd (remove_tags_from_bucket bucket_name tag_keys True w)) = tag_sets w
   \<and> fst (remove_tags_from_bucket bucket_name tag_keys True w) =
       (case fst (get_bucket_tags bucket_name w) of
          Inr existing_tags \<Rightarrow> Inr True
        | Inl (ClientError code) \<Rightarrow> Inr False
        | Inl BotoCoreError \<Rightarrow> Inl BotoCoreError)
   \<and> filter mutating (s3_calls (snd (tag_all_bucket tags merge_existing True bucket_filter w))) =
      filter mutating (s3_calls w)
   \<and> tag_sets (snd (tag_all_bucket tags merge_existing True bucket_filter w)) = tag_sets w
   \<and> fst (tag_all_bucket tags merge_existing True bucket_filter
        (snd (tag_all_bucket tags merge_existing True bucket_filter w))) =
      fst (tag_all_bucket tags merge_existing True bucket_filter w)"
proof -
  have "fst (tag_all_bucket tags merge_existing True bucket_filter
        (snd (tag_all_bucket tags merge_existing True bucket_filter w))) =
      fst (tag_all_bucket tags merge_existing True bucket_filter w)"
    by (rule tag_all_bucket_faults)
       (simp_all add: tag_all_bucket_frame[of tags merge_existing True bucket_filter w])
  then show ?thesis
    using apply_dry_run[of bucket_name tags merge_existing w]
      remove_dry_run[of bucket_name tag_keys w]
      tag_all_bucket_dry_run_calls[of tags merge_existing bucket_filter w]
      tag_all_bucket_dry_run_store[of tags merge_existing bucket_filter w]
    by blast
qed

theorem dry_run_never_mutates_witness:
  "fst (tag_all_bucket [(''env'', ''prod'')] True True None
      (s3_client [''b1'', ''b2''] (\<lambda>b. Some [(''a'', ''1'')])
         (\<lambda>b. if b = ''b2'' then Some (ClientError ''AccessDenied'') else None) (\<lambda>b. None))) =
     Inr [(''b1'', True), (''b2'', False)]
   \<and> fst (tag_all_bucket [(''env'', ''prod'')] True True None
       (snd (tag_all_bucket [(''env'', ''prod'')] True True None
         (s3_client [''b1'', ''b2''] (\<lambda>b. Some [(''a'', ''1'')])
           (\<lambda>b. if b = ''b2'' then Some (ClientError ''AccessDenied'') else None) (\<lambda>b. None))))) =
     Inr [(''b1'', True), (''b2'', False)]
   \<and> filter mutating (s3_calls (snd (tag_all_bucket [(''env'', ''prod'')] True True None
         (s3_client [''b1'', ''b2''] (\<lambda>b. Some [(''a'', ''1'')])
           (\<lambda>b. if b = ''b2'' then Some (ClientError ''AccessDenied'') else None) (\<lambda>b. None))))) = []"
proof -
  let ?w = "s3_client [''b1'', ''b2''] (\<lambda>b. Some [(''a'', ''1'')])
         (\<lambda>b. if b = ''b2'' then Some (ClientError ''AccessDenied'') else None) (\<lambda>b. None)"
  have e: "fst (tag_all_bucket [(''env'', ''prod'')] True True None ?w) =
     Inr [(''b1'', True), (''b2'', False)]"
    by (simp add: s3_eval)
  have c: "s3_calls ?w = []" by (simp add: s3_client_def)
  show ?thesis
    using dry_run_never_mutates[of "''b1''" "[(''env'', ''prod'')]" True ?w "[]" None] e c
    by simp
qed

theorem dry_run_fetch_failure_counterexample:
  "fst (apply_tags_to_bucket ''b2'' [(''env'', ''prod'')] True True
      (s3_client [''b2''] (\<lambda>b. Some [(''a'', ''1'')])
         (\<lambda>b. Some (ClientError ''AccessDenied'')) (\<lambda>b. None))) = Inr False
   \<and> fst (remove_tags_from_bucket ''b2'' [''a''] True
      (s3_client [''b2''] (\<lambda>b. Some [(''a'', ''1'')])
         (\<lambda>b. Some (ClientError ''AccessDenied'')) (\<lambda>b. None))) = Inr False"
  by (simp add: s3_eval)

text \<open>
  C10. When \<open>tag_all_bucket\<close> returns a mapping, it holds exactly one entry for each
  listed bucket whose name contains the filter (for every listed bucket when no filter is
  given); every remote call after the listing names a bucket that passes the filter; and
  the success count logged is the number of \<open>True\<close> entries of the mapping, next to its
  size.
\<close>

theorem tag_all_bucket_results:
  assumes "list_buckets_reply w = Inr buckets"
    and "tag_all_bucket tags merge_existing dry_run bucket_filter w = (Inr results, w')"
  shows "distinct (map fst results)
     \<and> set (map fst results) = {b \<in> set buckets. passes_filter bucket_filter b}
     \<and> (bucket_filter = None \<longrightarrow> set (map fst results) = set buckets)
     \<and> (\<exists>extra. s3_calls w' = s3_calls w @ ListBuckets # extra
           \<and> (\<forall>c \<in> set extra. \<exists>b \<in> set buckets.
                 passes_filter bucket_filter b \<and> call_bucket c = Some b))
     \<and> summaries w' = summaries w @ [(length (filter snd results), length results)]"
proof -
  let ?bs = "filter (passes_filter bucket_filter) buckets"
  have r: "fst (tag_buckets ?bs tags merge_existing dry_run [] (s3_called ListBuckets w)) = Inr results"
    using tag_all_bucket_fst[OF assms(1), of tags merge_existing dry_run bucket_filter] assms(2)
    by simp
  have p: "set (map fst results) = set ?bs \<union> set (map fst [])"
    "distinct (map fst []) \<longrightarrow> distinct (map fst results)"
    using tag_buckets_results[OF r] by simp_all
  have 1: "distinct (map fst results)" using p(2) by simp
  have 2: "set (map fst results) = {b \<in> set buckets. passes_filter bucket_filter b}"
    using p(1) by auto
  have 3: "bucket_filter = None \<longrightarrow> set (map fst results) = set buckets"
    using 2 by (auto simp: passes_filter_def)
  have 4: "\<exists>extra. s3_calls w' = s3_calls w @ ListBuckets # extra
           \<and> (\<forall>c \<in> set extra. \<exists>b \<in> set buckets.
                 passes_filter bucket_filter b \<and> call_bucket c = Some b)"
    using tag_all_bucket_calls[OF assms(1), of tags merge_existing dry_run bucket_filter] assms(2)
    by auto
  have 5: "summaries w' = summaries w @ [(length (filter snd results), length results)]"
    by (rule tag_all_bucket_summary[OF assms(2)])
  from 1 2 3 4 5 show ?thesis by blast
qed

theorem tag_all_bucket_results_witness:
  "fst (tag_all_bucket [(''env'', ''prod'')] True False (Some ''prod'')
      (s3_client [''prod-a'', ''dev-b'', ''prod-c''] (\<lambda>b. None) (\<lambda>b. None)
         (\<lambda>b. if b = ''prod-c'' then Some (ClientError ''AccessDenied'') else None))) =
     Inr [(''prod-a'', True), (''prod-c'', False)]
   \<and> summaries (snd (tag_all_bucket [(''env'', ''prod'')] True False (Some ''prod'')
      (s3_client [''prod-a'', ''dev-b'', ''prod-c''] (\<lambda>b. None) (\<lambda>b. None)
         (\<lambda>b. if b = ''prod-c'' then Some (ClientError ''AccessDenied'') else None)))) = [(1, 2)]
   \<and> s3_calls (snd (tag_all_bucket [(''env'', ''prod'')] True False (Some ''prod'')
      (s3_client [''prod-a'', ''dev-b'', ''prod-c''] (\<lambda>b. None) (\<lambda>b. None)
         (\<lambda>b. if b = ''prod-c'' then Some (ClientError ''AccessDenied'') else None)))) =
     [ListBuckets, GetBucketTagging ''prod-a'', PutBucketTagging ''prod-a'' [(''env'', ''prod'')],
      GetBucketTagging ''prod-c'', PutBucketTagging ''prod-c'' [(''env'', ''prod'')]]"
proof -
  let ?w = "s3_client [''prod-a'', ''dev-b'', ''prod-c''] (\<lambda>b. None) (\<lambda>b. None)
         (\<lambda>b. if b = ''prod-c'' then Some (ClientError ''AccessDenied'') else None)"
  let ?r = "tag_all_bucket [(''env'', ''prod'')] True False (Some ''prod'') ?w"
  have h1: "list_buckets_reply ?w = Inr [''prod-a'', ''dev-b'', ''prod-c'']"
    by (simp add: s3_client_def)
  have f: "filter (passes_filter (Some ''prod'')) [''prod-a'', ''dev-b'', ''prod-c''] =
      [''prod-a'', ''prod-c'']"
    by code_simp
  have e: "fst ?r = Inr [(''prod-a'', True), (''prod-c'', False)]"
    unfolding tag_all_bucket_fst[OF h1] f by (simp add: s3_eval)
  have c: "s3_calls (snd ?r) =
     [ListBuckets, GetBucketTagging ''prod-a'', PutBucketTagging ''prod-a'' [(''env'', ''prod'')],
      GetBucketTagging ''prod-c'', PutBucketTagging ''prod-c'' [(''env'', ''prod'')]]"
    unfolding tag_all_bucket_eq[OF h1] f by (simp add: s3_eval)
  have h2: "?r = (Inr [(''prod-a'', True), (''prod-c'', False)], snd ?r)"
    using e by (metis prod.collapse)
  have s: "summaries ?w = []" by (simp add: s3_client_def)
  show ?thesis
    using tag_all_bucket_results[OF h1 h2] e c s by simp
qed

section \<open>The EventBridge tagger\<close>


lemma tag_resource_count_called:
  "tag_resource_count (called c w) = tag_resource_count w + (if is_tag_resource c then 1 else 0)"
  by (simp add: tag_resource_count_def called_def)

lemma tag_resource_count_print [simp]: "tag_resource_count (print l w) = tag_resource_count w"
  by (simp add: tag_resource_count_def print_def)

lemma events_frame [simp]:
  "tag_resource_reply (called c w) = tag_resource_reply w"
  "tag_resource_reply (print l w) = tag_resource_reply w"
  "tags_reply (called c w) = tags_reply w"
  "tags_reply (print l w) = tags_reply w"
  "pages (called c w) = pages w"
  "pages (print l w) = pages w"
  "ev_calls (print l w) = ev_calls w"
  "ev_calls (called c w) = ev_calls w @ [c]"
  "stdout (called c w) = stdout w"
  "stdout (print l w) = stdout w @ [l]"
  by (simp_all add: called_def print_def)

lemma apply_tags_throttled:
  "tag_resource_reply w (tag_resource_count w) = throttled \<Longrightarrow>
   apply_tags (Suc room) a nm tags w =
     apply_tags room a nm tags
       (called (SleepSeconds 2) (print (RateLimitRetrying nm) (called (TagResource a tags) w)))"
  by (simp add: apply_tags.simps tag_resource_def)

lemma apply_tags_not_throttled_eq:
  "tag_resource_reply w (tag_resource_count w) = r \<Longrightarrow> r \<noteq> throttled \<Longrightarrow>
   apply_tags (Suc room) a nm tags w =
     (r = None,
       (case r of
          None \<Rightarrow> wait_with_jitter (print (SuccessfullyTagged nm) (called (TagResource a tags) w))
        | Some (ClientError code) \<Rightarrow>
            print (if code = ''AccessDeniedException'' then AccessDenied nm
                   else if code = ''ResourceNotFound'' then RuleNotFound nm
                   else if code = ''unsupported '' then TaggingUnsupported nm
                   else ErrorTagging nm) (called (TagResource a tags) w)
        | Some BotoCoreError \<Rightarrow> print (UnexpectedError nm) (called (TagResource a tags) w)))"
  apply (subst apply_tags.simps)
  apply (cases r)
   apply (simp add: tag_resource_def)
  subgoal for e
    apply (cases e)
     apply (simp_all add: tag_resource_def)
    done
  done

lemma apply_tags_not_throttled:
  "tag_resource_reply w (tag_resource_count w) = r \<Longrightarrow> r \<noteq> throttled \<Longrightarrow>
   fst (apply_tags (Suc room) a nm tags w) = (r = None)
   \<and> ev_calls (snd (apply_tags (Suc room) a nm tags w)) =
       ev_calls w @ TagResource a tags # (if r = None then [SleepJitter] else [])"
  unfolding apply_tags_not_throttled_eq[of w r room a nm tags]
  by (cases r) (auto simp: wait_with_jitter_def split: exn.splits)

lemma count_after_retry:
  "tag_resource_count (called (SleepSeconds 2) (print l (called (TagResource a tags) w))) =
     Suc (tag_resource_count w)"
  by (simp add: tag_resource_count_called)

lemma apply_tags_after_throttling:
  "\<forall>i < n. tag_resource_reply w (tag_resource_count w + i) = throttled \<Longrightarrow>
   tag_resource_reply w (tag_resource_count w + n) = r \<Longrightarrow> r \<noteq> throttled \<Longrightarrow> n < room \<Longrightarrow>
   fst (apply_tags room a nm tags w) = (r = None)
   \<and> ev_calls (snd (apply_tags room a nm tags w)) =
       ev_calls w @ concat (replicate n [TagResource a tags, SleepSeconds 2])
         @ TagResource a tags # (if r = None then [SleepJitter] else [])"
proof (induction n arbitrary: room w)
  case 0
  then obtain room' where room: "room = Suc room'" by (cases room) simp_all
  from 0 show ?case
    unfolding room using apply_tags_not_throttled[of w r room' a nm tags] by simp
next
  case (Suc n)
  then obtain room' where room: "room = Suc room'" by (cases room) simp_all
  let ?w = "called (SleepSeconds 2) (print (RateLimitRetrying nm) (called (TagResource a tags) w))"
  have t: "tag_resource_reply w (tag_resource_count w) = throttled"
    using Suc.prems(1)[rule_format, of 0] by simp
  have c: "tag_resource_count ?w = Suc (tag_resource_count w)"
    by (rule count_after_retry)
  have 1: "\<forall>i < n. tag_resource_reply ?w (tag_resource_count ?w + i) = throttled"
  proof (intro allI impI)
    fix i assume "i < n"
    then have "Suc i < Suc n" by simp
    from Suc.prems(1)[rule_format, OF this]
    show "tag_resource_reply ?w (tag_resource_count ?w + i) = throttled"
      by (simp add: c)
  qed
  have 2: "tag_resource_reply ?w (tag_resource_count ?w + n) = r"
    using Suc.prems(2) by (simp add: c)
  have 4: "n < room'" using Suc.prems(4) room by simp
  have e: "apply_tags room a nm tags w = apply_tags room' a nm tags ?w"
    unfolding room by (rule apply_tags_throttled[OF t])
  have calls: "ev_calls ?w = ev_calls w @ [TagResource a tags, SleepSeconds 2]"
    by simp
  show ?case
    using Suc.IH[OF 1 2 Suc.prems(3) 4] unfolding e calls by simp
qed

lemma apply_tags_always_throttled:
  "\<forall>i < room. tag_resource_reply w (tag_resource_count w + i) = throttled \<Longrightarrow>
   fst (apply_tags room a nm tags w) = False
   \<and> ev_calls (snd (apply_tags room a nm tags w)) =
       ev_calls w @ concat (replicate room [TagResource a tags, SleepSeconds 2])
   \<and> last (stdout (snd (apply_tags room a nm tags w))) = UnexpectedError nm"
proof (induction room arbitrary: w)
  case 0
  show ?case by (simp add: apply_tags.simps)
next
  case (Suc room)
  let ?w = "called (SleepSeconds 2) (print (RateLimitRetrying nm) (called (TagResource a tags) w))"
  have t: "tag_resource_reply w (tag_resource_count w) = throttled"
    using Suc.prems[rule_format, of 0] by simp
  have c: "tag_resource_count ?w = Suc (tag_resource_count w)"
    by (rule count_after_retry)
  have 1: "\<forall>i < room. tag_resource_reply ?w (tag_resource_count ?w + i) = throttled"
  proof (intro allI impI)
    fix i assume "i < room"
    then have "Suc i < Suc room" by simp
    from Suc.prems[rule_format, OF this]
    show "tag_resource_reply ?w (tag_resource_count ?w + i) = throttled"
      by (simp add: c)
  qed
  have e: "apply_tags (Suc room) a nm tags w = apply_tags room a nm tags ?w"
    by (rule apply_tags_throttled[OF t])
  have calls: "ev_calls ?w = ev_calls w @ [TagResource a tags, SleepSeconds 2]"
    by simp
  show ?case
    using Suc.IH[OF 1] unfolding e calls by simp
qed

lemma apply_tags_call_bound:
  "tag_resource_count (snd (apply_tags room a nm tags w)) \<le> tag_resource_count w + room"
proof (induction room arbitrary: w)
  case 0
  show ?case by (simp add: apply_tags.simps)
next
  case (Suc room)
  show ?case
  proof (cases "tag_resource_reply w (tag_resource_count w) = throttled")
    case True
    let ?w = "called (SleepSeconds 2) (print (RateLimitRetrying nm) (called (TagResource a tags) w))"
    have c: "tag_resource_count ?w = Suc (tag_resource_count w)"
      by (rule count_after_retry)
    show ?thesis
      unfolding apply_tags_throttled[OF True] using Suc.IH[of ?w] unfolding c by simp
  next
    case False
    have "tag_resource_count (snd (apply_tags (Suc room) a nm tags w)) = Suc (tag_resource_count w)"
      unfolding apply_tags_not_throttled_eq[OF refl False]
      by (cases "tag_resource_reply w (tag_resource_count w)")
         (auto simp: wait_with_jitter_def tag_resource_count_called split: exn.splits)
    then show ?thesis by simp
  qed
qed

lemma events_client_sel:
  "tag_resource_reply (events_client ps tr rr) = rr"
  "tag_resource_count (events_client ps tr rr) = 0"
  "ev_calls (events_client ps tr rr) = []"
  "stdout (events_client ps tr rr) = []"
  "pages (events_client ps tr rr) = ps"
  "tags_reply (events_client ps tr rr) = tr"
  by (simp_all add: events_client_def tag_resource_count_def)

text \<open>
  C5 (amended). On the code \<open>ThrottlingExcep\<close> \<open>apply_tags\<close> sleeps a fixed 2 seconds and
  calls itself again with the same arguments, after every throttled attempt: it keeps no
  count and does not stop after one retry. When the remote throttles the next \<open>n\<close> calls
  of \<open>tag_resource\<close> and answers the one after otherwise, and the call stack has room for
  more than \<open>n\<close> nested invocations, \<open>apply_tags\<close> returns after exactly \<open>n + 1\<close> calls
  and \<open>n\<close> sleeps of 2 seconds, with \<open>True\<close> exactly when the last answer is a success
  (any other error code is not retried). When the remote throttles for as long as the
  stack has room, \<open>apply_tags\<close> gives up with \<open>False\<close> through the handler of unexpected
  errors, after one answered call per invocation. For every remote behaviour \<open>apply_tags\<close>
  terminates: it makes at most as many calls as the stack has room for invocations.
\<close>

theorem apply_tags_retries_while_throttled:
  "((\<forall>i < n. tag_resource_reply w (tag_resource_count w + i) = throttled)
      \<and> tag_resource_reply w (tag_resource_count w + n) = r \<and> r \<noteq> throttled \<and> n < room \<longrightarrow>
      fst (apply_tags room rule_arn rule_name tags w) = (r = None)
      \<and> ev_calls (snd (apply_tags room rule_arn rule_name tags w)) =
          ev_calls w @ concat (replicate n [TagResource rule_arn tags, SleepSeconds 2])
            @ TagResource rule_arn tags # (if r = None then [SleepJitter] else []))
   \<and> ((\<forall>i < room. tag_resource_reply w (tag_resource_count w + i) = throttled) \<longrightarrow>
        fst (apply_tags room rule_arn rule_name tags w) = False
        \<and> ev_calls (snd (apply_tags room rule_arn rule_name tags w)) =
            ev_calls w @ concat (replicate room [TagResource rule_arn tags, SleepSeconds 2])
        \<and> last (stdout (snd (apply_tags room rule_arn rule_name tags w))) =
            UnexpectedError rule_name)
   \<and> tag_resource_count (snd (apply_tags room rule_arn rule_name tags w)) \<le>
       tag_resource_count w + room"
proof (intro conjI impI)
  assume a: "(\<forall>i < n. tag_resource_reply w (tag_resource_count w + i) = throttled)
      \<and> tag_resource_reply w (tag_resource_count w + n) = r \<and> r \<noteq> throttled \<and> n < room"
  then have 1: "\<forall>i < n. tag_resource_reply w (tag_resource_count w + i) = throttled"
    and 2: "tag_resource_reply w (tag_resource_count w + n) = r" and 3: "r \<noteq> throttled"
    and 4: "n < room"
    by simp_all
  from apply_tags_after_throttling[OF 1 2 3 4, of rule_arn rule_name tags]
  show "fst (apply_tags room rule_arn rule_name tags w) = (r = None)"
    and "ev_calls (snd (apply_tags room rule_arn rule_name tags w)) =
          ev_calls w @ concat (replicate n [TagResource rule_arn tags, SleepSeconds 2])
            @ TagResource rule_arn tags # (if r = None then [SleepJitter] else [])"
    by simp_all
next
  assume a: "\<forall>i < room. tag_resource_reply w (tag_resource_count w + i) = throttled"
  from apply_tags_always_throttled[OF a, of rule_arn rule_name tags]
  show "fst (apply_tags room rule_arn rule_name tags w) = False"
    and "ev_calls (snd (apply_tags room rule_arn rule_name tags w)) =
            ev_calls w @ concat (replicate room [TagResource rule_arn tags, SleepSeconds 2])"
    and "last (stdout (snd (apply_tags room rule_arn rule_name tags w))) =
            UnexpectedError rule_name"
    by simp_all
next
  show "tag_resource_count (snd (apply_tags room rule_arn rule_name tags w)) \<le>
       tag_resource_count w + room"
    by (rule apply_tags_call_bound)
qed

theorem apply_tags_retries_while_throttled_witness:
  "fst (apply_tags 5 ''arn:1'' ''r'' [(''Env'', ''prd'')]
      (events_client [] (\<lambda>a. Inr []) (\<lambda>n. if n < 2 then throttled else None))) = True
   \<and> ev_calls (snd (apply_tags 5 ''arn:1'' ''r'' [(''Env'', ''prd'')]
      (events_client [] (\<lambda>a. Inr []) (\<lambda>n. if n < 2 then throttled else None)))) =
     [TagResource ''arn:1'' [(''Env'', ''prd'')], SleepSeconds 2,
      TagResource ''arn:1'' [(''Env'', ''prd'')], SleepSeconds 2,
      TagResource ''arn:1'' [(''Env'', ''prd'')], SleepJitter]
   \<and> fst (apply_tags 3 ''arn:1'' ''r'' [(''Env'', ''prd'')]
      (events_client [] (\<lambda>a. Inr []) (\<lambda>n. throttled))) = False
   \<and> ev_calls (snd (apply_tags 3 ''arn:1'' ''r'' [(''Env'', ''prd'')]
      (events_client [] (\<lambda>a. Inr []) (\<lambda>n. throttled)))) =
     [TagResource ''arn:1'' [(''Env'', ''prd'')], SleepSeconds 2,
      TagResource ''arn:1'' [(''Env'', ''prd'')], SleepSeconds 2,
      TagResource ''arn:1'' [(''Env'', ''prd'')], SleepSeconds 2]
   \<and> last (stdout (snd (apply_tags 3 ''arn:1'' ''r'' [(''Env'', ''prd'')]
      (events_client [] (\<lambda>a. Inr []) (\<lambda>n. throttled))))) = UnexpectedError ''r''"
proof -
  let ?w = "events_client [] (\<lambda>a. Inr []) (\<lambda>n. if n < 2 then throttled else None)"
  let ?v = "events_client [] (\<lambda>a. Inr []) (\<lambda>n. throttled)"
  have r2: "concat (replicate 2 [TagResource ''arn:1'' [(''Env'', ''prd'')], SleepSeconds 2]) =
      [TagResource ''arn:1'' [(''Env'', ''prd'')], SleepSeconds 2,
       TagResource ''arn:1'' [(''Env'', ''prd'')], SleepSeconds 2]"
    by (simp add: numeral_2_eq_2)
  have r3: "concat (replicate 3 [TagResource ''arn:1'' [(''Env'', ''prd'')], SleepSeconds 2]) =
      [TagResource ''arn:1'' [(''Env'', ''prd'')], SleepSeconds 2,
       TagResource ''arn:1'' [(''Env'', ''prd'')], SleepSeconds 2,
       TagResource ''arn:1'' [(''Env'', ''prd'')], SleepSeconds 2]"
    by (simp add: numeral_3_eq_3)
  have a: "fst (apply_tags 5 ''arn:1'' ''r'' [(''Env'', ''prd'')] ?w) = True
    \<and> ev_calls (snd (apply_tags 5 ''arn:1'' ''r'' [(''Env'', ''prd'')] ?w)) =
     [TagResource ''arn:1'' [(''Env'', ''prd'')], SleepSeconds 2,
      TagResource ''arn:1'' [(''Env'', ''prd'')], SleepSeconds 2,
      TagResource ''arn:1'' [(''Env'', ''prd'')], SleepJitter]"
    using apply_tags_retries_while_throttled[of 2 ?w None 5 "''arn:1''" "''r''" "[(''Env'', ''prd'')]"]
    by (simp add: events_client_sel r2)
  have b: "fst (apply_tags 3 ''arn:1'' ''r'' [(''Env'', ''prd'')] ?v) = False
    \<and> ev_calls (snd (apply_tags 3 ''arn:1'' ''r'' [(''Env'', ''prd'')] ?v)) =
     [TagResource ''arn:1'' [(''Env'', ''prd'')], SleepSeconds 2,
      TagResource ''arn:1'' [(''Env'', ''prd'')], SleepSeconds 2,
      TagResource ''arn:1'' [(''Env'', ''prd'')], SleepSeconds 2]
    \<and> last (stdout (snd (apply_tags 3 ''arn:1'' ''r'' [(''Env'', ''prd'')] ?v))) =
        UnexpectedError ''r''"
    using apply_tags_retries_while_throttled[of 0 ?v None 3 "''arn:1''" "''r''" "[(''Env'', ''prd'')]"]
    by (simp add: events_client_sel r3)
  from a b show ?thesis by simp
qed

theorem apply_tags_second_retry_counterexample:
  "fst (apply_tags 900 ''arn:1'' ''r'' [(''Env'', ''prd'')]
      (events_client [] (\<lambda>a. Inr []) (\<lambda>n. if n < 2 then throttled else None))) = True
   \<and> ev_calls (snd (apply_tags 900 ''arn:1'' ''r'' [(''Env'', ''prd'')]
      (events_client [] (\<lambda>a. Inr []) (\<lambda>n. if n < 2 then throttled else None)))) =
     [TagResource ''arn:1'' [(''Env'', ''prd'')], SleepSeconds 2,
      TagResource ''arn:1'' [(''Env'', ''prd'')], SleepSeconds 2,
      TagResource ''arn:1'' [(''Env'', ''prd'')], SleepJitter]"
proof -
  let ?w = "events_client [] (\<lambda>a. Inr []) (\<lambda>n. if n < 2 then throttled else None)"
  have 1: "\<forall>i < 2. tag_resource_reply ?w (tag_resource_count ?w + i) = throttled"
    by (simp add: events_client_sel)
  have 2: "tag_resource_reply ?w (tag_resource_count ?w + 2) = None"
    by (simp add: events_client_sel)
  have 3: "None \<noteq> throttled" by simp
  have 4: "(2::nat) < 900" by simp
  have r: "concat (replicate 2 [TagResource ''arn:1'' [(''Env'', ''prd'')], SleepSeconds 2]) =
      [TagResource ''arn:1'' [(''Env'', ''prd'')], SleepSeconds 2,
       TagResource ''arn:1'' [(''Env'', ''prd'')], SleepSeconds 2]"
    by (simp add: numeral_2_eq_2)
  show ?thesis
    using apply_tags_after_throttling[OF 1 2 3 4, of "''arn:1''" "''r''" "[(''Env'', ''prd'')]"]
    by (simp add: r events_client_sel)
qed

lemma wait_with_jitter_frame [simp]:
  "tags_reply (wait_with_jitter w) = tags_reply w"
  "pages (wait_with_jitter w) = pages w"
  "tag_resource_reply (wait_with_jitter w) = tag_resource_reply w"
  "tag_resource_count (wait_with_jitter w) = tag_resource_count w"
  "stdout (wait_with_jitter w) = stdout w"
  by (simp_all add: wait_with_jitter_def tag_resource_count_called)

lemma scan_rules_frame:
  "tags_reply (snd (scan_rules pats rs m w)) = tags_reply w
   \<and> tag_resource_reply (snd (scan_rules pats rs m w)) = tag_resource_reply w
   \<and> tag_resource_count (snd (scan_rules pats rs m w)) = tag_resource_count w"
proof (induction rs arbitrary: m w)
  case Nil
  show ?case by simp
next
  case (Cons r rs)
  show ?case
  proof (cases "matches pats (Name r)")
    case False
    then show ?thesis using Cons.IH by simp
  next
    case True
    show ?thesis
    proof (cases "tags_reply w (Arn r)")
      case (Inr tags)
      then show ?thesis using True Cons.IH
        by (simp add: list_tags_for_resource_def tag_resource_count_called)
    next
      case (Inl e)
      then show ?thesis using True Cons.IH
        by (cases e) (simp_all add: list_tags_for_resource_def tag_resource_count_called)
    qed
  qed
qed

lemma scan_rules_result:
  "\<forall>r \<in> set rs. tags_reply w (Arn r) \<noteq> Inl BotoCoreError \<Longrightarrow>
   fst (scan_rules pats rs m w) =
     Inr (m @ map (fetched w) (filter (\<lambda>r. matches pats (Name r)) rs))"
proof (induction rs arbitrary: m w)
  case Nil
  show ?case by simp
next
  case (Cons r rs)
  have rest: "\<forall>r \<in> set rs. tags_reply w (Arn r) \<noteq> Inl BotoCoreError"
    using Cons.prems by simp
  show ?case
  proof (cases "matches pats (Name r)")
    case False
    then show ?thesis using Cons.IH[OF rest] by simp
  next
    case True
    show ?thesis
    proof (cases "tags_reply w (Arn r)")
      case (Inr tags)
      let ?w = "wait_with_jitter (called (ListTagsForResource (Arn r)) w)"
      have "\<forall>r \<in> set rs. tags_reply ?w (Arn r) \<noteq> Inl BotoCoreError" using rest by simp
      from Cons.IH[OF this] show ?thesis using True Inr
        by (simp add: list_tags_for_resource_def)
    next
      case (Inl e)
      then obtain code where e: "e = ClientError code" using Cons.prems by (cases e) simp_all
      let ?w = "wait_with_jitter (print (if code = ''UnsupportedOperation''
                         then TaggingNotSupportedFor (Name r)
                         else CouldNotGetTags (Name r)) (called (ListTagsForResource (Arn r)) w))"
      have "\<forall>r \<in> set rs. tags_reply ?w (Arn r) \<noteq> Inl BotoCoreError" using rest by simp
      from Cons.IH[OF this] show ?thesis using True Inl e
        by (simp add: list_tags_for_resource_def)
    qed
  qed
qed

lemma walk_pages_frame:
  "tags_reply (snd (walk_pages pats ps m w)) = tags_reply w
   \<and> tag_resource_reply (snd (walk_pages pats ps m w)) = tag_resource_reply w
   \<and> tag_resource_count (snd (walk_pages pats ps m w)) = tag_resource_count w"
proof (induction ps arbitrary: m w)
  case Nil
  show ?case by simp
next
  case (Cons p ps)
  show ?case
  proof (cases p)
    case (Inl e)
    then show ?thesis by (simp add: tag_resource_count_called)
  next
    case (Inr rules)
    obtain r1 w1 where s: "scan_rules pats rules m (called ListRulesPage w) = (r1, w1)"
      by (cases "scan_rules pats rules m (called ListRulesPage w)")
    have fr: "tags_reply w1 = tags_reply w" "tag_resource_reply w1 = tag_resource_reply w"
      "tag_resource_count w1 = tag_resource_count w"
      using scan_rules_frame[of pats rules m "called ListRulesPage w"] s
      by (simp_all add: tag_resource_count_called)
    show ?thesis
    proof (cases r1)
      case (Inl e)
      then show ?thesis using Inr s fr by simp
    next
      case (Inr m1)
      then show ?thesis using \<open>p = Inr rules\<close> s fr Cons.IH[of m1 w1] by simp
    qed
  qed
qed

lemma walk_pages_result:
  "\<forall>r \<in> set (concat pgs). tags_reply w (Arn r) \<noteq> Inl BotoCoreError \<Longrightarrow>
   fst (walk_pages pats (map Inr pgs) m w) =
     Inr (m @ map (fetched w) (filter (\<lambda>r. matches pats (Name r)) (concat pgs)))"
proof (induction pgs arbitrary: m w)
  case Nil
  show ?case by simp
next
  case (Cons rules pgs)
  let ?w0 = "called ListRulesPage w"
  obtain r1 w1 where s: "scan_rules pats rules m ?w0 = (r1, w1)"
    by (cases "scan_rules pats rules m ?w0")
  have "\<forall>r \<in> set rules. tags_reply ?w0 (Arn r) \<noteq> Inl BotoCoreError"
    using Cons.prems by simp
  from scan_rules_result[OF this, of pats m]
  have r1: "r1 = Inr (m @ map (fetched w) (filter (\<lambda>r. matches pats (Name r)) rules))"
    using s by simp
  have fr: "tags_reply w1 = tags_reply w"
    using scan_rules_frame[of pats rules m ?w0] s by simp
  have "\<forall>r \<in> set (concat pgs). tags_reply w1 (Arn r) \<noteq> Inl BotoCoreError"
    using Cons.prems fr by simp
  from Cons.IH[OF this] show ?case using s r1 fr by simp
qed

lemma walk_pages_fails:
  "Inl e \<in> set ps \<Longrightarrow> \<exists>e'. fst (walk_pages pats ps m w) = Inl e'"
proof (induction ps arbitrary: m w)
  case Nil
  then show ?case by simp
next
  case (Cons p ps)
  show ?case
  proof (cases p)
    case (Inl e0)
    then show ?thesis by simp
  next
    case (Inr rules)
    then have in_rest: "Inl e \<in> set ps" using Cons.prems by auto
    obtain r1 w1 where s: "scan_rules pats rules m (called ListRulesPage w) = (r1, w1)"
      by (cases "scan_rules pats rules m (called ListRulesPage w)")
    show ?thesis
    proof (cases r1)
      case (Inl e1)
      then show ?thesis using Inr s by simp
    next
      case (Inr m1)
      then show ?thesis using \<open>p = Inr rules\<close> s Cons.IH[OF in_rest, of m1 w1] by simp
    qed
  qed
qed

lemma list_rules_by_pattern_frame:
  "tag_resource_count (snd (list_rules_by_pattern pats w)) = tag_resource_count w"
  using walk_pages_frame[of pats "pages w" "[]" w]
  by (auto simp: list_rules_by_pattern_def split: prod.splits sum.splits)

lemma list_rules_by_pattern_fails:
  assumes "Inl e \<in> set (pages w)"
  shows "fst (list_rules_by_pattern pats w) = []
     \<and> last (stdout (snd (list_rules_by_pattern pats w))) = ErrorListing"
proof -
  obtain e' where "fst (walk_pages pats (pages w) [] w) = Inl e'"
    using walk_pages_fails[OF assms] by blast
  then show ?thesis
    by (auto simp: list_rules_by_pattern_def split: prod.splits sum.splits)
qed

lemma tag_rules_no_match:
  assumes "fst (list_rules_by_pattern pats (print Tagging w)) = []"
  shows "tag_rules room pats tags ci answer w =
     (Returned, print NoMatch (snd (list_rules_by_pattern pats (print Tagging w))))"
  using assms by (cases "list_rules_by_pattern pats (print Tagging w)") (simp add: tag_rules_def)

text \<open>
  C7 (amended). If fetching some page of the listing raises, \<open>list_rules_by_pattern\<close>
  prints the listing error and returns the empty list: the rules matched on the pages
  before the failure are discarded. \<open>tag_rules\<close> then prints \<open>No Match\<close> and returns
  without any call of \<open>tag_resource\<close>.
\<close>

theorem listing_failure_discards_matches:
  assumes "Inl e \<in> set (pages w)"
  shows "fst (list_rules_by_pattern name_patterns w) = []
     \<and> last (stdout (snd (list_rules_by_pattern name_patterns w))) = ErrorListing
     \<and> fst (tag_rules room name_patterns tags ci answer w) = Returned
     \<and> last (stdout (snd (tag_rules room name_patterns tags ci answer w))) = NoMatch
     \<and> tag_resource_count (snd (tag_rules room name_patterns tags ci answer w)) =
         tag_resource_count w"
proof -
  have p: "Inl e \<in> set (pages (print Tagging w))" using assms by simp
  have 1: "fst (list_rules_by_pattern name_patterns w) = []
     \<and> last (stdout (snd (list_rules_by_pattern name_patterns w))) = ErrorListing"
    by (rule list_rules_by_pattern_fails[OF assms])
  have e: "fst (list_rules_by_pattern name_patterns (print Tagging w)) = []"
    using list_rules_by_pattern_fails[OF p] by simp
  have c: "tag_resource_count (snd (list_rules_by_pattern name_patterns (print Tagging w))) =
      tag_resource_count w"
    by (simp add: list_rules_by_pattern_frame)
  show ?thesis
    using 1 c by (simp add: tag_rules_no_match[OF e])
qed

theorem listing_failure_discards_matches_witness:
  "fst (walk_pages [''test'']
      [Inr [\<lparr>Name = ''test-rule'', Arn = ''arn:1''\<rparr>]] []
      (events_client [Inr [\<lparr>Name = ''test-rule'', Arn = ''arn:1''\<rparr>],
                      Inl (ClientError ''InternalException'')]
        (\<lambda>a. Inr [(''Env'', ''dev'')]) (\<lambda>n. None))) =
     Inr [\<lparr>m_name = ''test-rule'', m_arn = ''arn:1'', m_current_tags = [(''Env'', ''dev'')],
           m_tagging_supported = None\<rparr>]
   \<and> fst (list_rules_by_pattern [''test'']
      (events_client [Inr [\<lparr>Name = ''test-rule'', Arn = ''arn:1''\<rparr>],
                      Inl (ClientError ''InternalException'')]
        (\<lambda>a. Inr [(''Env'', ''dev'')]) (\<lambda>n. None))) = []
   \<and> fst (tag_rules 900 [''test''] [(''Env'', ''prd'')] (Some ''true'') ''''
      (events_client [Inr [\<lparr>Name = ''test-rule'', Arn = ''arn:1''\<rparr>],
                      Inl (ClientError ''InternalException'')]
        (\<lambda>a. Inr [(''Env'', ''dev'')]) (\<lambda>n. None))) = Returned"
proof -
  let ?w = "events_client [Inr [\<lparr>Name = ''test-rule'', Arn = ''arn:1''\<rparr>],
                      Inl (ClientError ''InternalException'')]
        (\<lambda>a. Inr [(''Env'', ''dev'')]) (\<lambda>n. None)"
  have h: "Inl (ClientError ''InternalException'') \<in> set (pages ?w)"
    by (simp add: events_client_sel)
  have a: "fst (walk_pages [''test'']
      [Inr [\<lparr>Name = ''test-rule'', Arn = ''arn:1''\<rparr>]] [] ?w) =
     Inr [\<lparr>m_name = ''test-rule'', m_arn = ''arn:1'', m_current_tags = [(''Env'', ''dev'')],
           m_tagging_supported = None\<rparr>]"
    by code_simp
  show ?thesis
    using listing_failure_discards_matches[OF h, of "[''test'']" 900 "[(''Env'', ''prd'')]"
        "Some ''true''" "''''"] a
    by simp
qed

theorem listing_failure_counterexample:
  "fst (walk_pages [''test'']
      [Inr [\<lparr>Name = ''test-rule'', Arn = ''arn:1''\<rparr>]] []
      (events_client [Inr [\<lparr>Name = ''test-rule'', Arn = ''arn:1''\<rparr>],
                      Inl (ClientError ''InternalException'')]
        (\<lambda>a. Inr [(''Env'', ''dev'')]) (\<lambda>n. None))) =
     Inr [\<lparr>m_name = ''test-rule'', m_arn = ''arn:1'', m_current_tags = [(''Env'', ''dev'')],
           m_tagging_supported = None\<rparr>]
   \<and> fst (list_rules_by_pattern [''test'']
      (events_client [Inr [\<lparr>Name = ''test-rule'', Arn = ''arn:1''\<rparr>],
                      Inl (ClientError ''InternalException'')]
        (\<lambda>a. Inr [(''Env'', ''dev'')]) (\<lambda>n. None))) = []
   \<and> ev_calls (snd (list_rules_by_pattern [''test'']
      (events_client [Inr [\<lparr>Name = ''test-rule'', Arn = ''arn:1''\<rparr>],
                      Inl (ClientError ''InternalException'')]
        (\<lambda>a. Inr [(''Env'', ''dev'')]) (\<lambda>n. None)))) =
     [ListRulesPage, ListTagsForResource ''arn:1'', SleepJitter, ListRulesPage]
   \<and> stdout (snd (tag_rules 900 [''test''] [(''Env'', ''prd'')] (Some ''true'') ''''
      (events_client [Inr [\<lparr>Name = ''test-rule'', Arn = ''arn:1''\<rparr>],
                      Inl (ClientError ''InternalException'')]
        (\<lambda>a. Inr [(''Env'', ''dev'')]) (\<lambda>n. None)))) = [Tagging, ErrorListing, NoMatch]"
  by code_simp

text \<open>
  C8 (amended). \<open>get_bucket_tags\<close> returns the empty dict when the bucket has no tag set
  (\<open>NoSuchTagSet\<close>) or an empty one, and raises every other exception of the fetch again
  to its caller. The tag fetch inside \<open>list_rules_by_pattern\<close> catches every
  \<open>ClientError\<close>, whatever its code: the rule is recorded with an empty tag map and
  \<open>tagging_supported\<close> false, and the walk goes on, so that the result holds one entry
  for every listed rule that matches a pattern.
\<close>

theorem fetch_errors:
  "(get_fault w b = None \<and> tag_sets w b = None \<longrightarrow> fst (get_bucket_tags b w) = Inr [])
   \<and> (get_fault w b = None \<and> tag_sets w b = Some [] \<longrightarrow> fst (get_bucket_tags b w) = Inr [])
   \<and> (get_fault w b = Some e \<and> e \<noteq> ClientError ''NoSuchTagSet'' \<longrightarrow>
        fst (get_bucket_tags b w) = Inl e)
   \<and> (pages ew = map Inr pgs
        \<and> (\<forall>r \<in> set (concat pgs). tags_reply ew (Arn r) \<noteq> Inl BotoCoreError) \<longrightarrow>
        fst (list_rules_by_pattern name_patterns ew) =
          map (fetched ew) (filter (\<lambda>r. matches name_patterns (Name r)) (concat pgs)))
   \<and> (tags_reply ew (Arn r) = Inl (ClientError code) \<longrightarrow>
        fetched ew r = \<lparr>m_name = Name r, m_arn = Arn r, m_current_tags = [],
                        m_tagging_supported = Some False\<rparr>)"
proof (intro conjI impI)
  assume "get_fault w b = None \<and> tag_sets w b = None"
  then show "fst (get_bucket_tags b w) = Inr []" by (simp add: get_bucket_tags_fst)
next
  assume "get_fault w b = None \<and> tag_sets w b = Some []"
  then show "fst (get_bucket_tags b w) = Inr []"
    by (simp add: get_bucket_tags_fst dict_of_items_def)
next
  assume "get_fault w b = Some e \<and> e \<noteq> ClientError ''NoSuchTagSet''"
  then show "fst (get_bucket_tags b w) = Inl e"
    by (cases e) (simp_all add: get_bucket_tags_fst)
next
  assume a: "pages ew = map Inr pgs
        \<and> (\<forall>r \<in> set (concat pgs). tags_reply ew (Arn r) \<noteq> Inl BotoCoreError)"
  then have "\<forall>r \<in> set (concat pgs). tags_reply ew (Arn r) \<noteq> Inl BotoCoreError" by simp
  from walk_pages_result[OF this, of name_patterns "[]"]
  show "fst (list_rules_by_pattern name_patterns ew) =
          map (fetched ew) (filter (\<lambda>r. matches name_patterns (Name r)) (concat pgs))"
    using a by (auto simp: list_rules_by_pattern_def split: prod.splits sum.splits)
next
  assume "tags_reply ew (Arn r) = Inl (ClientError code)"
  then show "fetched ew r = \<lparr>m_name = Name r, m_arn = Arn r, m_current_tags = [],
                        m_tagging_supported = Some False\<rparr>" by simp
qed

theorem fetch_errors_witness:
  "fst (get_bucket_tags ''bkt''
      (s3_client [''bkt''] (\<lambda>b. None) (\<lambda>b. Some (ClientError ''AccessDenied'')) (\<lambda>b. None))) =
     Inl (ClientError ''AccessDenied'')
   \<and> fst (get_bucket_tags ''bkt'' (s3_client [''bkt''] (\<lambda>b. None) (\<lambda>b. None) (\<lambda>b. None))) = Inr []
   \<and> fst (list_rules_by_pattern [''test'']
      (events_client [Inr [\<lparr>Name = ''test-rule'', Arn = ''arn:1''\<rparr>,
                           \<lparr>Name = ''other'', Arn = ''arn:2''\<rparr>]]
        (\<lambda>a. Inl (ClientError ''AccessDeniedException'')) (\<lambda>n. None))) =
     [\<lparr>m_name = ''test-rule'', m_arn = ''arn:1'', m_current_tags = [],
       m_tagging_supported = Some False\<rparr>]"
proof -
  let ?w = "s3_client [''bkt''] (\<lambda>b. None) (\<lambda>b. Some (ClientError ''AccessDenied'')) (\<lambda>b. None)"
  let ?v = "s3_client [''bkt''] (\<lambda>b. None) (\<lambda>b. None) (\<lambda>b. None)"
  let ?rs = "[\<lparr>Name = ''test-rule'', Arn = ''arn:1''\<rparr>, \<lparr>Name = ''other'', Arn = ''arn:2''\<rparr>]"
  let ?ew = "events_client [Inr ?rs] (\<lambda>a. Inl (ClientError ''AccessDeniedException'')) (\<lambda>n. None)"
  have m: "filter (\<lambda>r. matches [''test''] (Name r)) (concat [?rs]) =
      [\<lparr>Name = ''test-rule'', Arn = ''arn:1''\<rparr>]"
    by code_simp
  have 1: "fst (get_bucket_tags ''bkt'' ?w) = Inl (ClientError ''AccessDenied'')"
    using fetch_errors[of ?w "''bkt''" "ClientError ''AccessDenied''" ?ew "[?rs]" "[''test'']"
        "\<lparr>Name = ''test-rule'', Arn = ''arn:1''\<rparr>" "''AccessDeniedException''"]
    by (simp add: s3_client_def)
  have 2: "fst (get_bucket_tags ''bkt'' ?v) = Inr []"
    using fetch_errors[of ?v "''bkt''" "ClientError ''AccessDenied''" ?ew "[?rs]" "[''test'']"
        "\<lparr>Name = ''test-rule'', Arn = ''arn:1''\<rparr>" "''AccessDeniedException''"]
    by (simp add: s3_client_def)
  have 3: "fst (list_rules_by_pattern [''test''] ?ew) =
     [\<lparr>m_name = ''test-rule'', m_arn = ''arn:1'', m_current_tags = [],
       m_tagging_supported = Some False\<rparr>]"
    using fetch_errors[of ?w "''bkt''" "ClientError ''AccessDenied''" ?ew "[?rs]" "[''test'']"
        "\<lparr>Name = ''test-rule'', Arn = ''arn:1''\<rparr>" "''AccessDeniedException''"]
    unfolding m by (simp add: events_client_sel)
  from 1 2 3 show ?thesis by simp
qed

theorem fetch_error_swallowed_counterexample:
  "fst (list_rules_by_pattern [''test'']
      (events_client [Inr [\<lparr>Name = ''test-rule'', Arn = ''arn:1''\<rparr>]]
        (\<lambda>a. Inl (ClientError ''AccessDeniedException'')) (\<lambda>n. None))) =
     [\<lparr>m_name = ''test-rule'', m_arn = ''arn:1'', m_current_tags = [],
       m_tagging_supported = Some False\<rparr>]
   \<and> stdout (snd (list_rules_by_pattern [''test'']
      (events_client [Inr [\<lparr>Name = ''test-rule'', Arn = ''arn:1''\<rparr>]]
        (\<lambda>a. Inl (ClientError ''AccessDeniedException'')) (\<lambda>n. None)))) =
     [CouldNotGetTags ''test-rule'']"
  by code_simp

lemma print_lines_frame [simp]:
  "tag_resource_count (print_lines ls w) = tag_resource_count w"
  "stdout (print_lines ls w) = stdout w @ ls"
  by (simp_all add: print_lines_def tag_resource_count_def)

lemma fold_print_lines_count:
  "tag_resource_count (fold (\<lambda>r. print_lines (f r)) rs w) = tag_resource_count w"
  by (induction rs arbitrary: w) simp_all

text \<open>
  C4. What \<open>tag_rules\<close> does at the confirmation gate, for the rules
  \<open>list_rules_by_pattern\<close> returned: with no taggable rule it returns without prompting;
  with a taggable rule and a declining user it prints \<open>Tagging aborted by user.\<close> and
  then raises \<open>NameError\<close> (line 149) instead of ending the run as skipped; with a
  taggable rule and a confirmation (or \<open>CI=true\<close>) it raises \<open>TypeError\<close> (line 143).
  In every run no call of \<open>tag_resource\<close> is made.
\<close>

theorem tag_rules_confirmation_gate:
  assumes "list_rules_by_pattern name_patterns (print Tagging w) = (rules, w1)"
  shows "(filter supported rules = [] \<longrightarrow>
            fst (tag_rules room name_patterns tags ci answer w) = Returned)
     \<and> (filter supported rules \<noteq> [] \<and> ci \<noteq> Some ''true'' \<and> lower (strip answer) \<noteq> ''yes'' \<longrightarrow>
            fst (tag_rules room name_patterns tags ci answer w) = Raised NameError
            \<and> last (stdout (snd (tag_rules room name_patterns tags ci answer w))) =
                AbortedByUser)
     \<and> (filter supported rules \<noteq> [] \<and> (ci = Some ''true'' \<or> lower (strip answer) = ''yes'') \<longrightarrow>
            fst (tag_rules room name_patterns tags ci answer w) = Raised TypeError)
     \<and> tag_resource_count (snd (tag_rules room name_patterns tags ci answer w)) =
         tag_resource_count w"
proof -
  have c: "tag_resource_count w1 = tag_resource_count w"
    using list_rules_by_pattern_frame[of name_patterns "print Tagging w"] assms by simp
  show ?thesis
  proof (cases "rules = []")
    case True
    then show ?thesis using assms c by (simp add: tag_rules_def)
  next
    case False
    show ?thesis
    proof (cases "filter supported rules = []")
      case True
      then show ?thesis using assms c False
        by (simp add: tag_rules_def Let_def fold_print_lines_count)
    next
      case nonempty: False
      show ?thesis
      proof (cases "ci = Some ''true'' \<or> lower (strip answer) = ''yes''")
        case True
        then show ?thesis using assms c False nonempty
          by (auto simp: tag_rules_def Let_def fold_print_lines_count apply_tags_two_arguments_def)
      next
        case declined: False
        then show ?thesis using assms c False nonempty
          by (auto simp: tag_rules_def Let_def fold_print_lines_count read_response_def)
      qed
    qed
  qed
qed

theorem tag_rules_confirmation_gate_witness:
  "fst (tag_rules 900 [''test''] [(''Env'', ''prd'')] None ''no''
      (events_client [Inr [\<lparr>Name = ''test-rule'', Arn = ''arn:1''\<rparr>]]
         (\<lambda>a. Inr [(''Env'', ''dev'')]) (\<lambda>n. None))) = Raised NameError
   \<and> last (stdout (snd (tag_rules 900 [''test''] [(''Env'', ''prd'')] None ''no''
      (events_client [Inr [\<lparr>Name = ''test-rule'', Arn = ''arn:1''\<rparr>]]
         (\<lambda>a. Inr [(''Env'', ''dev'')]) (\<lambda>n. None))))) = AbortedByUser
   \<and> tag_resource_count (snd (tag_rules 900 [''test''] [(''Env'', ''prd'')] None ''no''
      (events_client [Inr [\<lparr>Name = ''test-rule'', Arn = ''arn:1''\<rparr>]]
         (\<lambda>a. Inr [(''Env'', ''dev'')]) (\<lambda>n. None)))) = 0
   \<and> stdout (snd (tag_rules 900 [''test''] [(''Env'', ''prd'')] None ''no''
      (events_client [Inr [\<lparr>Name = ''test-rule'', Arn = ''arn:1''\<rparr>]]
         (\<lambda>a. Inr [(''Env'', ''dev'')]) (\<lambda>n. None)))) =
       [Tagging, Found 1, Taggable 1, NotTaggable 0, Header ''test-rule'',
        Delta (Change ''Env'' ''dev'' ''prd''), Prompt 1, AbortedByUser]"
proof -
  let ?w = "events_client [Inr [\<lparr>Name = ''test-rule'', Arn = ''arn:1''\<rparr>]]
         (\<lambda>a. Inr [(''Env'', ''dev'')]) (\<lambda>n. None)"
  let ?l = "list_rules_by_pattern [''test''] (print Tagging ?w)"
  have h: "?l = (fst ?l, snd ?l)" by simp
  have t: "filter supported (fst ?l) \<noteq> []" by code_simp
  have a: "lower (strip ''no'') \<noteq> ''yes''" by code_simp
  have c: "(None :: string option) \<noteq> Some ''true''" by simp
  have z: "tag_resource_count ?w = 0" by (simp add: events_client_sel)
  have s: "stdout (snd (tag_rules 900 [''test''] [(''Env'', ''prd'')] None ''no'' ?w)) =
       [Tagging, Found 1, Taggable 1, NotTaggable 0, Header ''test-rule'',
        Delta (Change ''Env'' ''dev'' ''prd''), Prompt 1, AbortedByUser]"
    by code_simp
  show ?thesis
    using tag_rules_confirmation_gate[OF h, of 900 "[(''Env'', ''prd'')]" None "''no''"] t a c z s
    by simp
qed

end
